theory Spec2Isabelle
  imports Main "HOL-Library.Char_ord" "HOL-Library.List_Lexorder"
begin

section \<open>The SMS gateway client (smsgwclient.go)\<close>

text \<open>
  The client marshals a batch of messages into one JSON document, posts it to
  \<open>baseURL + "/sendMessages"\<close> and decodes the JSON answer. The model follows
  \<open>smsgwclient.go\<close> declaration by declaration. Go strings are byte strings
  (\<open>string\<close>), a Go \<open>int\<close> is an \<open>int\<close> (no arithmetic is done on any of
  them; where the decoder checks the 64-bit range the check is written out), a nil-able
  pointer is an \<open>option\<close>, and a slice is a \<open>list option\<close> whose \<open>None\<close> is the
  nil slice, because \<open>encoding/json\<close> writes a nil slice as \<open>null\<close> and an empty
  one as \<open>[]\<close>.
\<close>

subsection \<open>Errors\<close>

text \<open>
  The error values \<open>Send\<close> can hand back: the marshaller's error around a failing
  \<open>MarshalJSON\<close>, the \<open>*url.Error\<close> of \<open>http.Client.Do\<close>, the
  \<open>errors.New\<close> value built from a text, and the decoder's errors
  (\<open>*json.SyntaxError\<close>, \<open>*json.UnmarshalTypeError\<close>, \<open>io.EOF\<close>,
  \<open>io.ErrUnexpectedEOF\<close>).
\<close>

datatype error =
    MarshalerError string
  | URLError string
  | ErrorString string
  | SyntaxError
  | UnmarshalTypeError
  | EOF
  | ErrUnexpectedEOF

subsection \<open>JSON documents\<close>

text \<open>
  A JSON document as a tree. Object members keep their order and may repeat a key, as
  they do on the wire; a number keeps its literal text.
\<close>

datatype jvalue =
    JNull
  | JBool bool
  | JNum string
  | JStr string
  | JArr "jvalue list"
  | JObj "(string \<times> jvalue) list"

fun keys :: "jvalue \<Rightarrow> string list" where
  "keys (JObj members) = map fst members"
| "keys _ = []"

fun objectMembers :: "jvalue \<Rightarrow> (string \<times> jvalue) list" where
  "objectMembers (JObj ms) = ms"
| "objectMembers _ = []"

subsection \<open>strconv.Itoa\<close>

fun digits :: "nat \<Rightarrow> string" where
  "digits n = (if n < 10 then [''0123456789'' ! n]
               else digits (n div 10) @ [''0123456789'' ! (n mod 10)])"

declare digits.simps [simp del]

definition Itoa :: "int \<Rightarrow> string" where
  "Itoa i = (if i < 0 then CHR ''-'' # digits (nat (- i)) else digits (nat i))"

subsection \<open>The data model\<close>

text \<open>
  \<open>time.Time\<close> belongs to the standard library. Marshalling observes two things of
  a time value: its calendar year, which \<open>MarshalJSON\<close> checks, and its text in the
  layout \<open>RFC3339Nano\<close>, which it writes. The record holds these two observations.
\<close>

record Time =
  Year :: int
  RFC3339Nano :: string

record OriginatorSettings =
  OriginatorType :: string
  Originator :: string

record GasSettings =
  ServiceCode :: string
  Description :: string

record SendWindow =
  StartDate :: Time
  StartTime :: "Time option"
  StopDate :: "Time option"
  StopTime :: "Time option"

text \<open>
  \<open>Parameters\<close> is a Go map: the list holds its entries, one per key. A nil map
  and an empty map are both the empty list; marshalling treats them alike.
\<close>

record Settings =
  Priority :: int
  Validity :: int
  Differentiator :: string
  Age :: int
  NewSession :: bool
  SessionID :: string
  InvoiceNode :: string
  AutoDetectEncoding :: bool
  SafeRemoveNonGsmCharacters :: bool
  OriginatorSettings :: "OriginatorSettings option"
  GasSettings :: "GasSettings option"
  SendWindow :: "SendWindow option"
  Parameters :: "(string \<times> string) list"

record Message =
  Recipient :: string
  Content :: string
  Price :: int
  ClientReference :: string
  Settings :: "Settings option"

record smsGatewayRequest =
  ServiceID :: int
  Username :: string
  Password :: string
  BatchReference :: string
  Messages :: "Message list option"

record MessageStatus =
  StatusCode :: int
  StatusMessage :: string
  ClientReference :: string
  Recipient :: string
  MessageID :: string
  SessionID :: string
  SequenceIndex :: int

record SmsGatewayResponse =
  BatchReference :: string
  MessageStatus :: "MessageStatus list option"

record SmsGatewayClient =
  serviceID :: int
  baseURL :: string
  username :: string
  password :: string

subsection \<open>json.Marshal on the request types\<close>

text \<open>
  One entry per struct field, in declaration order, as the field tags say: a field
  without \<open>omitempty\<close> is always written, a field with it is left out when it holds
  its empty value (0, false, the empty string, a nil pointer, a map without entries).
  A field whose value fails to marshal makes the whole document fail with that error;
  the first such field in order decides.
\<close>

definition field :: "string \<Rightarrow> jvalue \<Rightarrow> error + (string \<times> jvalue) list" where
  "field name v = Inr [(name, v)]"

definition omitempty :: "string \<Rightarrow> bool \<Rightarrow> jvalue \<Rightarrow> error + (string \<times> jvalue) list" where
  "omitempty name isEmpty v = Inr (if isEmpty then [] else [(name, v)])"

definition fallible :: "string \<Rightarrow> error + jvalue \<Rightarrow> error + (string \<times> jvalue) list" where
  "fallible name r = (case r of Inl e \<Rightarrow> Inl e | Inr v \<Rightarrow> Inr [(name, v)])"

definition omitnil ::
  "string \<Rightarrow> ('a \<Rightarrow> error + jvalue) \<Rightarrow> 'a option \<Rightarrow> error + (string \<times> jvalue) list" where
  "omitnil name marshal p = (case p of None \<Rightarrow> Inr [] | Some x \<Rightarrow> fallible name (marshal x))"

fun collect :: "(error + 'a list) list \<Rightarrow> error + 'a list" where
  "collect [] = Inr []"
| "collect (Inl e # rest) = Inl e"
| "collect (Inr xs # rest) =
     (case collect rest of Inl e \<Rightarrow> Inl e | Inr ys \<Rightarrow> Inr (xs @ ys))"

definition struct :: "(error + (string \<times> jvalue) list) list \<Rightarrow> error + jvalue" where
  "struct fs = (case collect fs of Inl e \<Rightarrow> Inl e | Inr members \<Rightarrow> Inr (JObj members))"

text \<open>
  \<open>Time.MarshalJSON\<close>: a year outside 0..9999 is an error, which
  \<open>json.Marshal\<close> wraps in a \<open>MarshalerError\<close>. (Go 1.20 and later
  also refuse a zone offset of a day or more, which no zone has; the record leaves the
  offset out.) The strings, integers, booleans and string maps of the request types
  always marshal.
\<close>

definition marshalTime :: "Time \<Rightarrow> error + jvalue" where
  "marshalTime t =
     (if Year t < 0 \<or> Year t \<ge> 10000
      then Inl (MarshalerError ''Time.MarshalJSON: year outside of range [0,9999]'')
      else Inr (JStr (RFC3339Nano t)))"

definition marshalOriginatorSettings :: "OriginatorSettings \<Rightarrow> error + jvalue" where
  "marshalOriginatorSettings s = struct
     [field ''originatorType'' (JStr (OriginatorType s)),
      field ''originator'' (JStr (Originator s))]"

definition marshalGasSettings :: "GasSettings \<Rightarrow> error + jvalue" where
  "marshalGasSettings s = struct
     [field ''serviceCode'' (JStr (ServiceCode s)),
      omitempty ''description'' (Description s = []) (JStr (Description s))]"

definition marshalSendWindow :: "SendWindow \<Rightarrow> error + jvalue" where
  "marshalSendWindow w = struct
     [fallible ''startDate'' (marshalTime (StartDate w)),
      omitnil ''startTime'' marshalTime (StartTime w),
      omitnil ''stopDate'' marshalTime (StopDate w),
      omitnil ''stopTime'' marshalTime (StopTime w)]"

text \<open>A map is written as an object with its keys sorted as byte strings.\<close>

definition marshalParameters :: "(string \<times> string) list \<Rightarrow> jvalue" where
  "marshalParameters m = JObj (map (\<lambda>(k, v). (k, JStr v)) (sort_key fst m))"

definition marshalSettings :: "Settings \<Rightarrow> error + jvalue" where
  "marshalSettings s = struct
     [omitempty ''priority'' (Priority s = 0) (JNum (Itoa (Priority s))),
      omitempty ''validity'' (Validity s = 0) (JNum (Itoa (Validity s))),
      omitempty ''differentiator'' (Differentiator s = []) (JStr (Differentiator s)),
      omitempty ''age'' (Age s = 0) (JNum (Itoa (Age s))),
      omitempty ''newSession'' (\<not> NewSession s) (JBool (NewSession s)),
      omitempty ''sessionId'' (Settings.SessionID s = []) (JStr (Settings.SessionID s)),
      omitempty ''invoiceNode'' (InvoiceNode s = []) (JStr (InvoiceNode s)),
      omitempty ''autoDetectEncoding'' (\<not> AutoDetectEncoding s) (JBool (AutoDetectEncoding s)),
      omitempty ''safeRemoveNonGsmCharacters'' (\<not> SafeRemoveNonGsmCharacters s)
        (JBool (SafeRemoveNonGsmCharacters s)),
      omitnil ''originatorSettings'' marshalOriginatorSettings (OriginatorSettings s),
      omitnil ''gasSettings'' marshalGasSettings (GasSettings s),
      omitnil ''sendWindow'' marshalSendWindow (SendWindow s),
      omitempty ''parameter'' (length (Parameters s) = 0) (marshalParameters (Parameters s))]"

definition marshalMessage :: "Message \<Rightarrow> error + jvalue" where
  "marshalMessage m = struct
     [field ''recipient'' (JStr (Message.Recipient m)),
      field ''content'' (JStr (Content m)),
      field ''price'' (JNum (Itoa (Price m))),
      omitempty ''clientReference'' (Message.ClientReference m = [])
        (JStr (Message.ClientReference m)),
      omitnil ''settings'' marshalSettings (Settings m)]"

fun marshalAll :: "('a \<Rightarrow> error + jvalue) \<Rightarrow> 'a list \<Rightarrow> error + jvalue list" where
  "marshalAll marshal [] = Inr []"
| "marshalAll marshal (x # xs) =
     (case marshal x of
        Inl e \<Rightarrow> Inl e
      | Inr v \<Rightarrow> (case marshalAll marshal xs of Inl e \<Rightarrow> Inl e | Inr vs \<Rightarrow> Inr (v # vs)))"

definition marshalMessages :: "Message list option \<Rightarrow> error + jvalue" where
  "marshalMessages ms =
     (case ms of
        None \<Rightarrow> Inr JNull
      | Some xs \<Rightarrow> (case marshalAll marshalMessage xs of Inl e \<Rightarrow> Inl e | Inr vs \<Rightarrow> Inr (JArr vs)))"

definition Marshal :: "smsGatewayRequest \<Rightarrow> error + jvalue" where
  "Marshal r = struct
     [field ''serviceId'' (JNum (Itoa (ServiceID r))),
      field ''username'' (JStr (Username r)),
      field ''password'' (JStr (Password r)),
      omitempty ''batchReference'' (smsGatewayRequest.BatchReference r = [])
        (JStr (smsGatewayRequest.BatchReference r)),
      fallible ''message'' (marshalMessages (Messages r))]"

subsection \<open>json.Decoder: the scanner\<close>

definition dq :: char where "dq = CHR 0x22"
definition bs :: char where "bs = CHR 0x5C"

definition isSpace :: "char \<Rightarrow> bool" where
  "isSpace c = (c = CHR '' '' \<or> c = CHR 0x09 \<or> c = CHR 0x0D \<or> c = CHR 0x0A)"

definition skipSpace :: "string \<Rightarrow> string" where
  "skipSpace s = dropWhile isSpace s"

definition isDigit :: "char \<Rightarrow> bool" where
  "isDigit c = (CHR ''0'' \<le> c \<and> c \<le> CHR ''9'')"

definition isHex :: "char \<Rightarrow> bool" where
  "isHex c = (isDigit c \<or> (CHR ''a'' \<le> c \<and> c \<le> CHR ''f'') \<or> (CHR ''A'' \<le> c \<and> c \<le> CHR ''F''))"

definition keep :: "char \<Rightarrow> error + (string \<times> string) \<Rightarrow> error + (string \<times> string)" where
  "keep c r = (case r of Inl e \<Rightarrow> Inl e | Inr (lit, rest) \<Rightarrow> Inr (c # lit, rest))"

datatype stringState = InString | InStringEsc | InStringEscU nat

fun scanString :: "stringState \<Rightarrow> string \<Rightarrow> error + (string \<times> string)" where
  "scanString st [] = Inl ErrUnexpectedEOF"
| "scanString InString (c # s) =
     (if c = dq then Inr ([], s)
      else if c = bs then keep c (scanString InStringEsc s)
      else if c < CHR 0x20 then Inl SyntaxError
      else keep c (scanString InString s))"
| "scanString InStringEsc (c # s) =
     (if c = CHR ''b'' \<or> c = CHR ''f'' \<or> c = CHR ''n'' \<or> c = CHR ''r'' \<or> c = CHR ''t''
         \<or> c = bs \<or> c = CHR ''/'' \<or> c = dq
      then keep c (scanString InString s)
      else if c = CHR ''u'' then keep c (scanString (InStringEscU 4) s)
      else Inl SyntaxError)"
| "scanString (InStringEscU n) (c # s) =
     (if isHex c then keep c (scanString (if n \<le> 1 then InString else InStringEscU (n - 1)) s)
      else Inl SyntaxError)"

datatype numberState = Neg | Num0 | Num1 | Dot | Dot0 | Exp | ExpSign | Exp0

fun scanNumber :: "numberState \<Rightarrow> string \<Rightarrow> error + (string \<times> string)" where
  "scanNumber Neg [] = Inl ErrUnexpectedEOF"
| "scanNumber Dot [] = Inl ErrUnexpectedEOF"
| "scanNumber Exp [] = Inl ErrUnexpectedEOF"
| "scanNumber ExpSign [] = Inl ErrUnexpectedEOF"
| "scanNumber st [] = Inr ([], [])"
| "scanNumber Neg (c # s) =
     (if c = CHR ''0'' then keep c (scanNumber Num0 s)
      else if isDigit c then keep c (scanNumber Num1 s)
      else Inl SyntaxError)"
| "scanNumber Num1 (c # s) =
     (if isDigit c then keep c (scanNumber Num1 s)
      else if c = CHR ''.'' then keep c (scanNumber Dot s)
      else if c = CHR ''e'' \<or> c = CHR ''E'' then keep c (scanNumber Exp s)
      else Inr ([], c # s))"
| "scanNumber Num0 (c # s) =
     (if c = CHR ''.'' then keep c (scanNumber Dot s)
      else if c = CHR ''e'' \<or> c = CHR ''E'' then keep c (scanNumber Exp s)
      else Inr ([], c # s))"
| "scanNumber Dot (c # s) =
     (if isDigit c then keep c (scanNumber Dot0 s) else Inl SyntaxError)"
| "scanNumber Dot0 (c # s) =
     (if isDigit c then keep c (scanNumber Dot0 s)
      else if c = CHR ''e'' \<or> c = CHR ''E'' then keep c (scanNumber Exp s)
      else Inr ([], c # s))"
| "scanNumber Exp (c # s) =
     (if c = CHR ''+'' \<or> c = CHR ''-'' then keep c (scanNumber ExpSign s)
      else if isDigit c then keep c (scanNumber Exp0 s)
      else Inl SyntaxError)"
| "scanNumber ExpSign (c # s) =
     (if isDigit c then keep c (scanNumber Exp0 s) else Inl SyntaxError)"
| "scanNumber Exp0 (c # s) =
     (if isDigit c then keep c (scanNumber Exp0 s) else Inr ([], c # s))"

fun scanLiteral :: "string \<Rightarrow> string \<Rightarrow> error + string" where
  "scanLiteral [] s = Inr s"
| "scanLiteral (e # es) [] = Inl ErrUnexpectedEOF"
| "scanLiteral (e # es) (c # s) = (if c = e then scanLiteral es s else Inl SyntaxError)"


subsection \<open>Unquoting a string literal\<close>

definition byte :: "char \<Rightarrow> nat" where
  "byte c = of_char c"

definition hexval :: "char \<Rightarrow> nat" where
  "hexval c =
     (if isDigit c then byte c - 48
      else if CHR ''a'' \<le> c \<and> c \<le> CHR ''f'' then byte c - 87
      else byte c - 55)"

definition getu4 :: "string \<Rightarrow> nat option" where
  "getu4 s =
     (case s of
        b # u # h1 # h2 # h3 # h4 # _ \<Rightarrow>
          if b = bs \<and> u = CHR ''u'' \<and> isHex h1 \<and> isHex h2 \<and> isHex h3 \<and> isHex h4
          then Some (((hexval h1 * 16 + hexval h2) * 16 + hexval h3) * 16 + hexval h4)
          else None
      | _ \<Rightarrow> None)"

definition RuneError :: nat where
  "RuneError = 0xFFFD"

definition isCont :: "char \<Rightarrow> bool" where
  "isCont c = (CHR 0x80 \<le> c \<and> c \<le> CHR 0xBF)"

definition DecodeRune :: "string \<Rightarrow> nat \<times> nat" where
  "DecodeRune p =
     (case p of
        [] \<Rightarrow> (RuneError, 0)
      | p0 # t \<Rightarrow>
          if p0 < CHR 0x80 then (byte p0, 1)
          else if CHR 0xC2 \<le> p0 \<and> p0 \<le> CHR 0xDF then
            (case t of
               b1 # _ \<Rightarrow>
                 if isCont b1 then ((byte p0 - 0xC0) * 64 + (byte b1 - 0x80), 2)
                 else (RuneError, 1)
             | _ \<Rightarrow> (RuneError, 1))
          else if CHR 0xE0 \<le> p0 \<and> p0 \<le> CHR 0xEF then
            (case t of
               b1 # b2 # _ \<Rightarrow>
                 if (if p0 = CHR 0xE0 then CHR 0xA0 else CHR 0x80) \<le> b1
                    \<and> b1 \<le> (if p0 = CHR 0xED then CHR 0x9F else CHR 0xBF) \<and> isCont b2
                 then (((byte p0 - 0xE0) * 64 + (byte b1 - 0x80)) * 64 + (byte b2 - 0x80), 3)
                 else (RuneError, 1)
             | _ \<Rightarrow> (RuneError, 1))
          else if CHR 0xF0 \<le> p0 \<and> p0 \<le> CHR 0xF4 then
            (case t of
               b1 # b2 # b3 # _ \<Rightarrow>
                 if (if p0 = CHR 0xF0 then CHR 0x90 else CHR 0x80) \<le> b1
                    \<and> b1 \<le> (if p0 = CHR 0xF4 then CHR 0x8F else CHR 0xBF)
                    \<and> isCont b2 \<and> isCont b3
                 then ((((byte p0 - 0xF0) * 64 + (byte b1 - 0x80)) * 64 + (byte b2 - 0x80)) * 64
                        + (byte b3 - 0x80), 4)
                 else (RuneError, 1)
             | _ \<Rightarrow> (RuneError, 1))
          else (RuneError, 1))"

definition chr :: "nat \<Rightarrow> char" where
  "chr n = char_of n"

definition EncodeRune :: "nat \<Rightarrow> string" where
  "EncodeRune r =
     (if r \<le> 0x7F then [chr r]
      else if r \<le> 0x7FF then [chr (0xC0 + r div 64), chr (0x80 + r mod 64)]
      else if r > 0x10FFFF \<or> (0xD800 \<le> r \<and> r \<le> 0xDFFF) then [CHR 0xEF, CHR 0xBF, CHR 0xBD]
      else if r \<le> 0xFFFF then
        [chr (0xE0 + r div 4096), chr (0x80 + (r div 64) mod 64), chr (0x80 + r mod 64)]
      else [chr (0xF0 + r div 262144), chr (0x80 + (r div 4096) mod 64),
            chr (0x80 + (r div 64) mod 64), chr (0x80 + r mod 64)])"

definition IsSurrogate :: "nat \<Rightarrow> bool" where
  "IsSurrogate r = (0xD800 \<le> r \<and> r < 0xE000)"

definition utf16DecodeRune :: "nat \<Rightarrow> nat option \<Rightarrow> nat" where
  "utf16DecodeRune r1 r2 =
     (case r2 of
        Some r2' \<Rightarrow>
          if 0xD800 \<le> r1 \<and> r1 < 0xDC00 \<and> 0xDC00 \<le> r2' \<and> r2' < 0xE000
          then (r1 - 0xD800) * 1024 + (r2' - 0xDC00) + 0x10000
          else RuneError
      | None \<Rightarrow> RuneError)"

definition emit :: "string \<Rightarrow> string option \<Rightarrow> string option" where
  "emit out r = (case r of None \<Rightarrow> None | Some t \<Rightarrow> Some (out @ t))"

function unquoteBytes :: "string \<Rightarrow> string option" where
  "unquoteBytes [] = Some []"
| "unquoteBytes (c # s) =
     (if c = bs then
        (case s of
           [] \<Rightarrow> None
         | e # s' \<Rightarrow>
             if e = dq \<or> e = bs \<or> e = CHR ''/'' \<or> e = CHR 0x27 then emit [e] (unquoteBytes s')
             else if e = CHR ''b'' then emit [CHR 0x08] (unquoteBytes s')
             else if e = CHR ''f'' then emit [CHR 0x0C] (unquoteBytes s')
             else if e = CHR ''n'' then emit [CHR 0x0A] (unquoteBytes s')
             else if e = CHR ''r'' then emit [CHR 0x0D] (unquoteBytes s')
             else if e = CHR ''t'' then emit [CHR 0x09] (unquoteBytes s')
             else if e = CHR ''u'' then
               (case getu4 (c # s) of
                  None \<Rightarrow> None
                | Some rr \<Rightarrow>
                    if IsSurrogate rr then
                      (let dec = utf16DecodeRune rr (getu4 (drop 5 s)) in
                       if dec \<noteq> RuneError then emit (EncodeRune dec) (unquoteBytes (drop 11 s))
                       else emit (EncodeRune RuneError) (unquoteBytes (drop 5 s)))
                    else emit (EncodeRune rr) (unquoteBytes (drop 5 s)))
             else None)
      else if c = dq \<or> c < CHR '' '' then None
      else if c < CHR 0x80 then emit [c] (unquoteBytes s)
      else (case DecodeRune (c # s) of
              (rr, n) \<Rightarrow> emit (EncodeRune rr) (unquoteBytes (drop n (c # s)))))"
  by pat_completeness auto
termination
proof -
  have size: "0 < n" if "(r, n) = DecodeRune (c # s)" for r n c s
    using that by (auto simp: DecodeRune_def split: if_splits list.splits)
  show ?thesis
    by (relation "measure length") (auto dest: size)
qed


subsection \<open>Scanning one value\<close>

text \<open>
  The value at the head of the input, and the input left after it. Blanks before a
  value and around the punctuation are skipped. An input that ends too early is
  \<open>ErrUnexpectedEOF\<close>, a byte that cannot continue the value is a
  \<open>SyntaxError\<close>, as is nesting deeper than 10000 (the scanner's limit since
  Go 1.15). The tests \<open>length r < length s\<close> before the recursive calls are there
  for the termination proof only.
\<close>

definition literal :: "jvalue \<Rightarrow> error + string \<Rightarrow> error + (jvalue \<times> string)" where
  "literal v r = (case r of Inl e \<Rightarrow> Inl e | Inr rest \<Rightarrow> Inr (v, rest))"

definition number :: "string \<Rightarrow> error + (string \<times> string) \<Rightarrow> error + (jvalue \<times> string)" where
  "number pre r = (case r of Inl e \<Rightarrow> Inl e | Inr (lit, rest) \<Rightarrow> Inr (JNum (pre @ lit), rest))"

definition quoted :: "string \<Rightarrow> error + string" where
  "quoted lit = (case unquoteBytes lit of None \<Rightarrow> Inl SyntaxError | Some s \<Rightarrow> Inr s)"

function scanValue :: "nat \<Rightarrow> string \<Rightarrow> error + (jvalue \<times> string)"
  and scanElements :: "nat \<Rightarrow> string \<Rightarrow> error + (jvalue list \<times> string)"
  and scanMembers :: "nat \<Rightarrow> string \<Rightarrow> error + ((string \<times> jvalue) list \<times> string)" where
  "scanValue depth s =
     (case skipSpace s of
        [] \<Rightarrow> Inl ErrUnexpectedEOF
      | c # r \<Rightarrow>
          if c = CHR ''{'' then
            (if depth \<ge> 10000 then Inl SyntaxError
             else case skipSpace r of
                    [] \<Rightarrow> Inl ErrUnexpectedEOF
                  | c' # r' \<Rightarrow>
                      if c' = CHR ''}'' then Inr (JObj [], r')
                      else (case scanMembers (Suc depth) (c' # r') of
                              Inl e \<Rightarrow> Inl e
                            | Inr (members, rest) \<Rightarrow> Inr (JObj members, rest)))
          else if c = CHR ''['' then
            (if depth \<ge> 10000 then Inl SyntaxError
             else case skipSpace r of
                    [] \<Rightarrow> Inl ErrUnexpectedEOF
                  | c' # r' \<Rightarrow>
                      if c' = CHR '']'' then Inr (JArr [], r')
                      else (case scanElements (Suc depth) (c' # r') of
                              Inl e \<Rightarrow> Inl e
                            | Inr (elements, rest) \<Rightarrow> Inr (JArr elements, rest)))
          else if c = dq then
            (case scanString InString r of
               Inl e \<Rightarrow> Inl e
             | Inr (lit, rest) \<Rightarrow>
                 (case quoted lit of Inl e \<Rightarrow> Inl e | Inr str \<Rightarrow> Inr (JStr str, rest)))
          else if c = CHR ''-'' then number [c] (scanNumber Neg r)
          else if c = CHR ''0'' then number [c] (scanNumber Num0 r)
          else if isDigit c then number [c] (scanNumber Num1 r)
          else if c = CHR ''t'' then literal (JBool True) (scanLiteral ''rue'' r)
          else if c = CHR ''f'' then literal (JBool False) (scanLiteral ''alse'' r)
          else if c = CHR ''n'' then literal JNull (scanLiteral ''ull'' r)
          else Inl SyntaxError)"
| "scanElements depth s =
     (case scanValue depth s of
        Inl e \<Rightarrow> Inl e
      | Inr (v, rest) \<Rightarrow>
          (case skipSpace rest of
             [] \<Rightarrow> Inl ErrUnexpectedEOF
           | c # r \<Rightarrow>
               if c = CHR '','' then
                 (if length r < length s then
                    (case scanElements depth r of
                       Inl e \<Rightarrow> Inl e
                     | Inr (vs, rest') \<Rightarrow> Inr (v # vs, rest'))
                  else Inl SyntaxError)
               else if c = CHR '']'' then Inr ([v], r)
               else Inl SyntaxError))"
| "scanMembers depth s =
     (case skipSpace s of
        [] \<Rightarrow> Inl ErrUnexpectedEOF
      | c # r \<Rightarrow>
          if c \<noteq> dq then Inl SyntaxError
          else
            (case scanString InString r of
               Inl e \<Rightarrow> Inl e
             | Inr (lit, rest) \<Rightarrow>
                 (case skipSpace rest of
                    [] \<Rightarrow> Inl ErrUnexpectedEOF
                  | c' # r' \<Rightarrow>
                      if c' \<noteq> CHR '':'' then Inl SyntaxError
                      else if length r' < length s then
                        (case scanValue depth r' of
                           Inl e \<Rightarrow> Inl e
                         | Inr (v, rest') \<Rightarrow>
                             (case skipSpace rest' of
                                [] \<Rightarrow> Inl ErrUnexpectedEOF
                              | c'' # r'' \<Rightarrow>
                                  if c'' = CHR '','' then
                                    (if length r'' < length s then
                                       (case quoted lit of
                                          Inl e \<Rightarrow> Inl e
                                        | Inr key \<Rightarrow>
                                            (case scanMembers depth r'' of
                                               Inl e \<Rightarrow> Inl e
                                             | Inr (ms, rest'') \<Rightarrow> Inr ((key, v) # ms, rest'')))
                                     else Inl SyntaxError)
                                  else if c'' = CHR ''}'' then
                                    (case quoted lit of
                                       Inl e \<Rightarrow> Inl e
                                     | Inr key \<Rightarrow> Inr ([(key, v)], r''))
                                  else Inl SyntaxError))
                      else Inl SyntaxError)))"
  by pat_completeness auto

termination
proof -
  have shorter: "length r < length s" if "skipSpace s = c # r" for s c r
  proof -
    have "length (dropWhile isSpace s) \<le> length s" by (rule length_dropWhile_le)
    with that show ?thesis by (simp add: skipSpace_def)
  qed
  show ?thesis
    by (relation "measure (\<lambda>x. case x of
             Inl (d, s) \<Rightarrow> 2 * length s
           | Inr (Inl (d, s)) \<Rightarrow> 2 * length s + 1
           | Inr (Inr (d, s)) \<Rightarrow> 2 * length s + 1)")
       (auto dest!: shorter)
qed

declare scanValue.simps [simp del] scanElements.simps [simp del] scanMembers.simps [simp del]

subsection \<open>Storing a value into the response structure\<close>

text \<open>
  A key selects the field whose name it equals, or else the first field whose name it
  equals when case is folded; a key that selects no field is skipped. Folding equates
  the two cases of an ASCII letter, the Kelvin sign (U+212A) with \<open>k\<close> and the long s
  (U+017F) with \<open>s\<close>. The first argument is the field name, which is ASCII.
\<close>

definition upper :: "char \<Rightarrow> nat" where
  "upper c = (if CHR ''a'' \<le> c \<and> c \<le> CHR ''z'' then byte c - 32 else byte c)"

definition isLetter :: "char \<Rightarrow> bool" where
  "isLetter c = ((CHR ''a'' \<le> c \<and> c \<le> CHR ''z'') \<or> (CHR ''A'' \<le> c \<and> c \<le> CHR ''Z''))"

fun equalFold :: "string \<Rightarrow> string \<Rightarrow> bool" where
  "equalFold [] t = (t = [])"
| "equalFold (sb # s) [] = False"
| "equalFold (sb # s) (tb # t) =
     (if tb < CHR 0x80 then
        (sb = tb \<or> (isLetter sb \<and> upper sb = upper tb)) \<and> equalFold s t
      else if (sb = CHR ''s'' \<or> sb = CHR ''S'') \<and> fst (DecodeRune (tb # t)) = 0x17F then
        equalFold s (drop 1 t)
      else if (sb = CHR ''k'' \<or> sb = CHR ''K'') \<and> fst (DecodeRune (tb # t)) = 0x212A then
        equalFold s (drop 2 t)
      else False)"

definition findField :: "string list \<Rightarrow> string \<Rightarrow> string option" where
  "findField names key =
     (case filter (\<lambda>name. name = key) names of
        name # _ \<Rightarrow> Some name
      | [] \<Rightarrow> (case filter (\<lambda>name. equalFold name key) names of
                 name # _ \<Rightarrow> Some name
               | [] \<Rightarrow> None))"

text \<open>
  \<open>strconv.ParseInt(s, 10, 64)\<close>: an optional sign, then decimal digits only, and
  a value that fits 64 bits.
\<close>

definition ParseInt :: "string \<Rightarrow> int option" where
  "ParseInt s =
     (let neg = (s \<noteq> [] \<and> hd s = CHR ''-'');
          ds = (if s \<noteq> [] \<and> (hd s = CHR ''-'' \<or> hd s = CHR ''+'') then tl s else s);
          n = foldl (\<lambda>a c. a * 10 + int (byte c - 48)) 0 ds;
          v = (if neg then - n else n)
      in if ds = [] \<or> \<not> list_all isDigit ds then None
         else if v < - (2 ^ 63) \<or> v \<ge> 2 ^ 63 then None
         else Some v)"

text \<open>
  A JSON \<open>null\<close> leaves a string, an integer or a struct as it was; a value of the
  wrong kind is an \<open>UnmarshalTypeError\<close>. The decoder keeps going after such an
  error and reports it at the end; the model stops at it, since \<open>Send\<close> drops the
  structure whenever \<open>Decode\<close> reports an error.
\<close>

definition storeString :: "jvalue \<Rightarrow> string \<Rightarrow> error + string" where
  "storeString v old =
     (case v of JStr s \<Rightarrow> Inr s | JNull \<Rightarrow> Inr old | _ \<Rightarrow> Inl UnmarshalTypeError)"

definition storeInt :: "jvalue \<Rightarrow> int \<Rightarrow> error + int" where
  "storeInt v old =
     (case v of
        JNum lit \<Rightarrow> (case ParseInt lit of Some n \<Rightarrow> Inr n | None \<Rightarrow> Inl UnmarshalTypeError)
      | JNull \<Rightarrow> Inr old
      | _ \<Rightarrow> Inl UnmarshalTypeError)"

fun foldE :: "('s \<Rightarrow> 'a \<Rightarrow> error + 's) \<Rightarrow> 'a list \<Rightarrow> 's \<Rightarrow> error + 's" where
  "foldE f [] st = Inr st"
| "foldE f (x # xs) st = (case f st x of Inl e \<Rightarrow> Inl e | Inr st' \<Rightarrow> foldE f xs st')"

definition set_to :: "('a \<Rightarrow> 's) \<Rightarrow> error + 'a \<Rightarrow> error + 's" where
  "set_to upd r = (case r of Inl e \<Rightarrow> Inl e | Inr x \<Rightarrow> Inr (upd x))"

definition zeroMessageStatus :: MessageStatus where
  "zeroMessageStatus =
     \<lparr>StatusCode = 0, StatusMessage = [], ClientReference = [], Recipient = [],
      MessageID = [], SessionID = [], SequenceIndex = 0\<rparr>"

definition zeroSmsGatewayResponse :: SmsGatewayResponse where
  "zeroSmsGatewayResponse = \<lparr>BatchReference = [], MessageStatus = None\<rparr>"

definition MessageStatusFields :: "string list" where
  "MessageStatusFields =
     [''statusCode'', ''statusMessage'', ''clientReference'', ''recipient'', ''messageId'',
      ''sessionId'', ''sequenceIndex'']"

definition SmsGatewayResponseFields :: "string list" where
  "SmsGatewayResponseFields = [''batchReference'', ''messageStatus'']"

definition storeMessageStatusField ::
  "MessageStatus \<Rightarrow> string \<times> jvalue \<Rightarrow> error + MessageStatus" where
  "storeMessageStatusField st member =
     (case member of (key, v) \<Rightarrow>
        (case findField MessageStatusFields key of
           None \<Rightarrow> Inr st
         | Some name \<Rightarrow>
             if name = ''statusCode'' then
               set_to (\<lambda>n. st\<lparr>StatusCode := n\<rparr>) (storeInt v (StatusCode st))
             else if name = ''statusMessage'' then
               set_to (\<lambda>x. st\<lparr>StatusMessage := x\<rparr>) (storeString v (StatusMessage st))
             else if name = ''clientReference'' then
               set_to (\<lambda>x. st\<lparr>MessageStatus.ClientReference := x\<rparr>)
                 (storeString v (MessageStatus.ClientReference st))
             else if name = ''recipient'' then
               set_to (\<lambda>x. st\<lparr>MessageStatus.Recipient := x\<rparr>)
                 (storeString v (MessageStatus.Recipient st))
             else if name = ''messageId'' then
               set_to (\<lambda>x. st\<lparr>MessageID := x\<rparr>) (storeString v (MessageID st))
             else if name = ''sessionId'' then
               set_to (\<lambda>x. st\<lparr>MessageStatus.SessionID := x\<rparr>)
                 (storeString v (MessageStatus.SessionID st))
             else
               set_to (\<lambda>n. st\<lparr>SequenceIndex := n\<rparr>) (storeInt v (SequenceIndex st))))"

definition storeMessageStatus :: "jvalue \<Rightarrow> MessageStatus \<Rightarrow> error + MessageStatus" where
  "storeMessageStatus v old =
     (case v of
        JObj members \<Rightarrow> foldE storeMessageStatusField members old
      | JNull \<Rightarrow> Inr old
      | _ \<Rightarrow> Inl UnmarshalTypeError)"

text \<open>
  An array is stored into the slice element by element. Element \<open>i\<close> is decoded
  into what the slice's backing array holds at \<open>i\<close>: the element already there when
  the key \<open>messageStatus\<close> came before in the same object, a zero element beyond it.
  \<open>backing\<close> is the backing array from index 0 on; what lies beyond the decoded
  elements stays in it.
\<close>

fun storeElements :: "jvalue list \<Rightarrow> MessageStatus list \<Rightarrow> error + MessageStatus list" where
  "storeElements [] backing = Inr []"
| "storeElements (v # vs) backing =
     (case storeMessageStatus v (case backing of [] \<Rightarrow> zeroMessageStatus | old # _ \<Rightarrow> old) of
        Inl e \<Rightarrow> Inl e
      | Inr x \<Rightarrow>
          (case storeElements vs (tl backing) of
             Inl e \<Rightarrow> Inl e
           | Inr xs \<Rightarrow> Inr (x # xs)))"

text \<open>
  The slice with the part of its backing array beyond its length. \<open>null\<close> makes the
  slice nil, an empty array makes a fresh empty slice.
\<close>

definition storeSlice ::
  "jvalue \<Rightarrow> MessageStatus list option \<times> MessageStatus list
     \<Rightarrow> error + (MessageStatus list option \<times> MessageStatus list)" where
  "storeSlice v old =
     (case v of
        JNull \<Rightarrow> Inr (None, [])
      | JArr elements \<Rightarrow>
          if elements = [] then Inr (Some [], [])
          else
            (let backing = (case fst old of None \<Rightarrow> [] | Some xs \<Rightarrow> xs) @ snd old in
             case storeElements elements backing of
               Inl e \<Rightarrow> Inl e
             | Inr xs \<Rightarrow> Inr (Some xs, drop (length elements) backing))
      | _ \<Rightarrow> Inl UnmarshalTypeError)"

definition storeSmsGatewayResponseField ::
  "SmsGatewayResponse \<times> MessageStatus list \<Rightarrow> string \<times> jvalue
     \<Rightarrow> error + (SmsGatewayResponse \<times> MessageStatus list)" where
  "storeSmsGatewayResponseField st member =
     (case (st, member) of ((resp, spare), (key, v)) \<Rightarrow>
        (case findField SmsGatewayResponseFields key of
           None \<Rightarrow> Inr st
         | Some name \<Rightarrow>
             if name = ''batchReference'' then
               set_to (\<lambda>x. (resp\<lparr>BatchReference := x\<rparr>, spare))
                 (storeString v (SmsGatewayResponse.BatchReference resp))
             else
               set_to (\<lambda>(xs, spare'). (resp\<lparr>MessageStatus := xs\<rparr>, spare'))
                 (storeSlice v (MessageStatus resp, spare))))"

definition unmarshal :: "jvalue \<Rightarrow> error + SmsGatewayResponse" where
  "unmarshal v =
     (case v of
        JObj members \<Rightarrow>
          set_to fst (foldE storeSmsGatewayResponseField members (zeroSmsGatewayResponse, []))
      | JNull \<Rightarrow> Inr zeroSmsGatewayResponse
      | _ \<Rightarrow> Inl UnmarshalTypeError)"

text \<open>
  \<open>Decoder.Decode\<close> on a body read to its end: \<open>io.EOF\<close> when the body holds
  nothing but blanks; otherwise the first value is scanned and stored, and whatever
  follows that value in the body is not looked at.
\<close>

definition Decode :: "string \<Rightarrow> error + SmsGatewayResponse" where
  "Decode body =
     (if skipSpace body = [] then Inl EOF
      else case scanValue 0 body of
             Inl e \<Rightarrow> Inl e
           | Inr (v, rest) \<Rightarrow> unmarshal v)"

subsection \<open>net/http\<close>

text \<open>
  The request as \<open>http.NewRequest\<close> builds it, with the marshalled document as its
  body (the bytes \<open>json.Marshal\<close> returns are the compact rendering of this
  document), and what the client reads of the response: the status code and the bytes of
  the body, read to its end. A header maps a name to the values added under it.
\<close>

record Request =
  Method :: string
  URL :: string
  Header :: "(string \<times> string list) list"
  Body :: jvalue

record Response =
  StatusCode :: int
  Body :: string

text \<open>
  \<open>http.Client.Do\<close> returns a response and no error, or an error and no response
  (every failure to reach the server or to read its answer), or both (a redirect policy
  that gives up hands back the last response with the error). Its errors are
  \<open>*url.Error\<close> values.
\<close>

datatype DoResult =
    DoOk Response
  | DoErr string
  | DoRespErr Response string

text \<open>
  What lies outside the program: which URLs \<open>url.Parse\<close> accepts, and what the
  HTTP client answers to a request.
\<close>

record Net =
  parses :: "string \<Rightarrow> bool"
  Do :: "Request \<Rightarrow> DoResult"

fun Add :: "(string \<times> string list) list \<Rightarrow> string \<Rightarrow> string \<Rightarrow> (string \<times> string list) list" where
  "Add [] key v = [(key, [v])]"
| "Add ((k, vs) # h) key v = (if k = key then (k, vs @ [v]) # h else (k, vs) # Add h key v)"

text \<open>
  \<open>http.NewRequest\<close> returns no request when the URL does not parse.
\<close>

definition NewRequest :: "Net \<Rightarrow> string \<Rightarrow> string \<Rightarrow> jvalue \<Rightarrow> Request option" where
  "NewRequest net method url body =
     (if parses net url then Some \<lparr>Method = method, URL = url, Header = [], Body = body\<rparr>
      else None)"

subsection \<open>The client\<close>

definition MakeSmsGatewayClient :: "string \<Rightarrow> int \<Rightarrow> string \<Rightarrow> string \<Rightarrow> SmsGatewayClient" where
  "MakeSmsGatewayClient baseURL' serviceID' username' password' =
     \<lparr>serviceID = serviceID', baseURL = baseURL', username = username', password = password'\<rparr>"

text \<open>
  \<open>createRequest\<close> drops the error of \<open>http.NewRequest\<close> and adds the two
  headers to the request it got. With no request (\<open>None\<close> of \<open>NewRequest\<close>)
  \<open>request.Header\<close> dereferences nil and the program panics: that is the result
  \<open>None\<close> here.
\<close>

definition createRequest :: "Net \<Rightarrow> string \<Rightarrow> jvalue \<Rightarrow> Request option" where
  "createRequest net url buf =
     (case NewRequest net ''POST'' url buf of
        None \<Rightarrow> None
      | Some request \<Rightarrow>
          Some (request\<lparr>Header :=
            Add (Add (Header request) ''Content-Type'' ''application/json'')
              ''Accept'' ''application/json''\<rparr>))"

text \<open>
  A call of \<open>Send\<close> ends by returning its pair of results or by a panic; on the
  way it hands requests to the HTTP client, which \<open>issued\<close> lists in order.
\<close>

datatype Result =
    Returned SmsGatewayResponse "error option"
  | Panic

record Outcome =
  issued :: "Request list"
  result :: Result

text \<open>
  \<open>Send\<close>, statement by statement; \<open>gatewayRequest\<close> is the envelope its
  first statement builds. \<open>defer response.Body.Close()\<close> stands
  before the test of \<open>err\<close>: it reads \<open>response.Body\<close> at once, so when
  \<open>Do\<close> gave no response the program panics there.
\<close>

definition gatewayRequest :: "SmsGatewayClient \<Rightarrow> Message list option \<Rightarrow> smsGatewayRequest" where
  "gatewayRequest client messages =
     \<lparr>ServiceID = serviceID client, Username = username client,
      Password = password client, BatchReference = [], Messages = messages\<rparr>"

definition Send :: "Net \<Rightarrow> SmsGatewayClient \<Rightarrow> Message list option \<Rightarrow> Outcome" where
  "Send net client messages =
     (case Marshal (gatewayRequest client messages) of
        Inl err \<Rightarrow> \<lparr>issued = [], result = Returned zeroSmsGatewayResponse (Some err)\<rparr>
      | Inr buffer \<Rightarrow>
          (case createRequest net (baseURL client @ ''/sendMessages'') buffer of
             None \<Rightarrow> \<lparr>issued = [], result = Panic\<rparr>
           | Some request \<Rightarrow>
               \<lparr>issued = [request],
                result =
                  (case Do net request of
                     DoErr err \<Rightarrow> Panic
                   | DoRespErr response err \<Rightarrow>
                       Returned zeroSmsGatewayResponse (Some (URLError err))
                   | DoOk response \<Rightarrow>
                       if Response.StatusCode response \<noteq> 200 then
                         Returned zeroSmsGatewayResponse
                           (Some (ErrorString
                              (''Status code: '' @ Itoa (Response.StatusCode response))))
                       else
                         (case Decode (Response.Body response) of
                            Inl err \<Rightarrow> Returned zeroSmsGatewayResponse (Some err)
                          | Inr gatewayResponse \<Rightarrow> Returned gatewayResponse None))\<rparr>))"

subsection \<open>The test file's fixtures\<close>

text \<open>
  \<open>smsgwclient_test.go\<close> builds the client for
  \<open>https://www.dummy-address.com\<close>, sends one message that is the zero
  \<open>Message\<close>, and lets \<open>httpmock\<close> answer the POST to
  \<open>https://www.dummy-address.com/sendMessages\<close> with a fixed status and body; a
  request with no responder gets an error and no response.
\<close>

definition testClient :: SmsGatewayClient where
  "testClient = MakeSmsGatewayClient ''https://www.dummy-address.com'' 0 [] []"

definition zeroMessage :: Message where
  "zeroMessage =
     \<lparr>Message.Recipient = [], Content = [], Price = 0, Message.ClientReference = [],
      Settings = None\<rparr>"

definition httpmock :: "int \<Rightarrow> string \<Rightarrow> Net" where
  "httpmock status body =
     \<lparr>parses = (\<lambda>url. url = ''https://www.dummy-address.com/sendMessages''),
      Do = (\<lambda>request.
        if Method request = ''POST'' \<and> URL request = ''https://www.dummy-address.com/sendMessages''
        then DoOk \<lparr>StatusCode = status, Body = body\<rparr>
        else DoErr ''no responder found'')\<rparr>"

definition okBody :: string where
  \<open>okBody = ''{"batchReference":"123abc","messageStatus":[]}''\<close>

text \<open>A server that cannot be reached: every request fails with no response.\<close>

definition unreachable :: Net where
  "unreachable =
     \<lparr>parses = (\<lambda>url. url = ''https://www.dummy-address.com/sendMessages''),
      Do = (\<lambda>request. DoErr ''dial tcp: connection refused'')\<rparr>"

text \<open>
  A server that answers every request with a redirect: the HTTP client follows ten of
  them and gives up, handing back the last response (status 302) together with its error.
\<close>

definition redirecting :: Net where
  "redirecting =
     \<lparr>parses = (\<lambda>url. url = ''https://www.dummy-address.com/sendMessages''),
      Do = (\<lambda>request.
        DoRespErr \<lparr>StatusCode = 302, Body = []\<rparr> ''stopped after 10 redirects'')\<rparr>"

text \<open>A message scheduled for the year 10000, which \<open>time.Time\<close> cannot marshal.\<close>

definition farMessage :: Message where
  "farMessage = zeroMessage\<lparr>Settings := Some
     \<lparr>Priority = 0, Validity = 0, Differentiator = [], Age = 0, NewSession = False,
      Settings.SessionID = [], InvoiceNode = [], AutoDetectEncoding = False,
      SafeRemoveNonGsmCharacters = False, OriginatorSettings = None, GasSettings = None,
      SendWindow = Some \<lparr>StartDate = \<lparr>Year = 10000, RFC3339Nano = ''10000-01-01T00:00:00Z''\<rparr>,
                          StartTime = None, StopDate = None, StopTime = None\<rparr>,
      Parameters = []\<rparr>\<rparr>"

text \<open>The request the test's call hands to the HTTP client.\<close>

definition testRequest :: Request where
  "testRequest =
     \<lparr>Method = ''POST'', URL = ''https://www.dummy-address.com/sendMessages'',
      Header = [(''Content-Type'', [''application/json'']), (''Accept'', [''application/json''])],
      Body = JObj [(''serviceId'', JNum ''0''), (''username'', JStr []), (''password'', JStr []),
                   (''message'', JArr [JObj [(''recipient'', JStr []), (''content'', JStr []),
                                             (''price'', JNum ''0'')]])]\<rparr>"

text \<open>Settings and a send window for the examples.\<close>

definition startOnly :: SendWindow where
  "startOnly =
     \<lparr>StartDate = \<lparr>Year = 2016, RFC3339Nano = ''2016-05-17T00:00:00Z''\<rparr>,
      StartTime = None, StopDate = None, StopTime = None\<rparr>"

definition zeroSettings :: Settings where
  "zeroSettings =
     \<lparr>Priority = 0, Validity = 0, Differentiator = [], Age = 0, NewSession = False,
      Settings.SessionID = [], InvoiceNode = [], AutoDetectEncoding = False,
      SafeRemoveNonGsmCharacters = False, OriginatorSettings = None, GasSettings = None,
      SendWindow = None, Parameters = []\<rparr>"

definition someSettings :: Settings where
  "someSettings = zeroSettings
     \<lparr>Priority := 2, NewSession := True,
      GasSettings := Some \<lparr>ServiceCode = ''09001'', Description = []\<rparr>,
      SendWindow := Some startOnly\<rparr>"

text \<open>
  A message with these settings, and the request \<open>Send\<close> hands to the HTTP
  client for it.
\<close>

definition someMessage :: Message where
  "someMessage = zeroMessage\<lparr>Settings := Some someSettings\<rparr>"

definition someRequest :: Request where
  "someRequest = testRequest\<lparr>Request.Body :=
     JObj [(''serviceId'', JNum ''0''), (''username'', JStr []), (''password'', JStr []),
           (''message'', JArr [JObj [(''recipient'', JStr []), (''content'', JStr []),
              (''price'', JNum ''0''),
              (''settings'', JObj [(''priority'', JNum ''2''), (''newSession'', JBool True),
                 (''gasSettings'', JObj [(''serviceCode'', JStr ''09001'')]),
                 (''sendWindow'', JObj [(''startDate'', JStr ''2016-05-17T00:00:00Z'')])])]])]\<rparr>"

subsection \<open>Request bodies, in the specification's words\<close>

text \<open>
  Following the specification's words, not the source. The body of the request is read
  as the envelope: it has a member \<open>message\<close>, and every such member holds
  \<open>null\<close> when the caller's slice is nil and otherwise an array with one value for
  each of the caller's messages, in order; \<open>eachMessage P\<close> says that \<open>P\<close>
  relates each message to the value written for it. An object written for a nil-able
  field is read by \<open>optionalObject\<close>: when the pointer is nil the object has no
  member of that name; otherwise it has one, and \<open>P\<close> relates the value pointed to
  and each member of that name.
\<close>

definition eachMessage ::
  "(Message \<Rightarrow> jvalue \<Rightarrow> bool) \<Rightarrow> Message list option \<Rightarrow> jvalue \<Rightarrow> bool" where
  "eachMessage P messages body =
     (''message'' \<in> set (keys body) \<and>
      list_all (\<lambda>(k, v). k = ''message'' \<longrightarrow>
          (case messages of
             None \<Rightarrow> v = JNull
           | Some ms \<Rightarrow> (case v of JArr vs \<Rightarrow> list_all2 P ms vs | _ \<Rightarrow> False)))
        (objectMembers body))"

definition optionalObject ::
  "string \<Rightarrow> 'a option \<Rightarrow> ('a \<Rightarrow> jvalue \<Rightarrow> bool) \<Rightarrow> jvalue \<Rightarrow> bool" where
  "optionalObject name p P j =
     (case p of
        None \<Rightarrow> name \<notin> set (keys j)
      | Some x \<Rightarrow> name \<in> set (keys j)
                 \<and> list_all (\<lambda>(k, v). k = name \<longrightarrow> P x v) (objectMembers j))"

text \<open>
  An optional field is left unset when it holds the zero value of its type: 0, false,
  the empty string, a nil pointer, a map without entries. In the object written for a
  value, each optional field that is left unset has no key; this goes down into the
  settings of a message and into the goods-and-services settings and the send window of
  the settings.
\<close>

definition omitsUnsetGasSettings :: "GasSettings \<Rightarrow> jvalue \<Rightarrow> bool" where
  "omitsUnsetGasSettings g j = (Description g = [] \<longrightarrow> ''description'' \<notin> set (keys j))"

definition omitsUnsetSendWindow :: "SendWindow \<Rightarrow> jvalue \<Rightarrow> bool" where
  "omitsUnsetSendWindow w j =
     ((StartTime w = None \<longrightarrow> ''startTime'' \<notin> set (keys j))
    \<and> (StopDate w = None \<longrightarrow> ''stopDate'' \<notin> set (keys j))
    \<and> (StopTime w = None \<longrightarrow> ''stopTime'' \<notin> set (keys j)))"

definition omitsUnsetSettings :: "Settings \<Rightarrow> jvalue \<Rightarrow> bool" where
  "omitsUnsetSettings s j =
     ((Priority s = 0 \<longrightarrow> ''priority'' \<notin> set (keys j))
    \<and> (Validity s = 0 \<longrightarrow> ''validity'' \<notin> set (keys j))
    \<and> (Differentiator s = [] \<longrightarrow> ''differentiator'' \<notin> set (keys j))
    \<and> (Age s = 0 \<longrightarrow> ''age'' \<notin> set (keys j))
    \<and> (\<not> NewSession s \<longrightarrow> ''newSession'' \<notin> set (keys j))
    \<and> (Settings.SessionID s = [] \<longrightarrow> ''sessionId'' \<notin> set (keys j))
    \<and> (InvoiceNode s = [] \<longrightarrow> ''invoiceNode'' \<notin> set (keys j))
    \<and> (\<not> AutoDetectEncoding s \<longrightarrow> ''autoDetectEncoding'' \<notin> set (keys j))
    \<and> (\<not> SafeRemoveNonGsmCharacters s \<longrightarrow> ''safeRemoveNonGsmCharacters'' \<notin> set (keys j))
    \<and> (OriginatorSettings s = None \<longrightarrow> ''originatorSettings'' \<notin> set (keys j))
    \<and> optionalObject ''gasSettings'' (GasSettings s) omitsUnsetGasSettings j
    \<and> optionalObject ''sendWindow'' (SendWindow s) omitsUnsetSendWindow j
    \<and> (Parameters s = [] \<longrightarrow> ''parameter'' \<notin> set (keys j)))"

definition omitsUnsetMessage :: "Message \<Rightarrow> jvalue \<Rightarrow> bool" where
  "omitsUnsetMessage m j =
     ((Message.ClientReference m = [] \<longrightarrow> ''clientReference'' \<notin> set (keys j))
    \<and> optionalObject ''settings'' (Settings m) omitsUnsetSettings j)"

text \<open>
  In the object written for settings: the key \<open>age\<close> stands exactly when the age
  is not 0, the member \<open>"age":0\<close> does not occur, and the key of each of the three
  flags stands exactly when the flag is true.
\<close>

definition omitsZeroAgeFalseFlags :: "Settings \<Rightarrow> jvalue \<Rightarrow> bool" where
  "omitsZeroAgeFalseFlags s j =
     ((''age'' \<in> set (keys j)) = (Age s \<noteq> 0)
    \<and> (''age'', JNum ''0'') \<notin> set (objectMembers j)
    \<and> (''newSession'' \<in> set (keys j)) = NewSession s
    \<and> (''autoDetectEncoding'' \<in> set (keys j)) = AutoDetectEncoding s
    \<and> (''safeRemoveNonGsmCharacters'' \<in> set (keys j)) = SafeRemoveNonGsmCharacters s)"

subsection \<open>Bodies, in the specification's words\<close>









section \<open>Properties\<close>

subsection \<open>Send, path by path\<close>

lemma Send_issued:
  assumes "Marshal (gatewayRequest client messages) = Inr buffer"
    and "createRequest net (baseURL client @ ''/sendMessages'') buffer = Some request"
  shows "Send net client messages =
    \<lparr>issued = [request],
     result =
       (case Do net request of
          DoErr err \<Rightarrow> Panic
        | DoRespErr response err \<Rightarrow> Returned zeroSmsGatewayResponse (Some (URLError err))
        | DoOk response \<Rightarrow>
            if Response.StatusCode response \<noteq> 200 then
              Returned zeroSmsGatewayResponse
                (Some (ErrorString (''Status code: '' @ Itoa (Response.StatusCode response))))
            else
              (case Decode (Response.Body response) of
                 Inl err \<Rightarrow> Returned zeroSmsGatewayResponse (Some err)
               | Inr gatewayResponse \<Rightarrow> Returned gatewayResponse None))\<rparr>"
  using assms by (simp add: Send_def)

subsection \<open>strconv.Itoa is injective\<close>

lemma digit_inj:
  assumes "a < 10" "b < 10" "''0123456789'' ! a = ''0123456789'' ! b"
  shows "a = b"
proof -
  have "distinct ''0123456789''" by simp
  moreover have "a < length ''0123456789''" "b < length ''0123456789''" using assms by simp_all
  ultimately show ?thesis using assms(3) by (simp only: nth_eq_iff_index_eq)
qed

lemma digits_nonempty: "digits n \<noteq> []"
  by (subst digits.simps) simp

lemma digits_set: "set (digits n) \<subseteq> set ''0123456789''"
proof (induction n rule: digits.induct)
  case (1 n)
  have m: "''0123456789'' ! k \<in> set ''0123456789''" if "k < 10" for k
    using that by (intro nth_mem) simp
  show ?case
  proof (cases "n < 10")
    case True
    then show ?thesis using m [of n] by (subst digits.simps) simp
  next
    case False
    have "n mod 10 < 10" by simp
    from m [OF this] 1 [OF False] False show ?thesis
      by (subst digits.simps) simp
  qed
qed

lemma digits_inj: "digits n = digits m \<Longrightarrow> n = m"
proof (induction n arbitrary: m rule: digits.induct)
  case (1 n)
  show ?case
  proof (cases "n < 10")
    case n: True
    show ?thesis
    proof (cases "m < 10")
      case True
      with n 1(2) show ?thesis by (auto simp: digits.simps [of n] digits.simps [of m] dest: digit_inj)
    next
      case False
      with n 1(2) show ?thesis
        using digits_nonempty [of "m div 10"]
        by (simp add: digits.simps [of n] digits.simps [of m])
    qed
  next
    case n: False
    show ?thesis
    proof (cases "m < 10")
      case True
      with n 1(2) show ?thesis
        using digits_nonempty [of "n div 10"]
        by (simp add: digits.simps [of n] digits.simps [of m])
    next
      case False
      with n 1(2) have e: "digits (n div 10) = digits (m div 10)"
        and d: "''0123456789'' ! (n mod 10) = ''0123456789'' ! (m mod 10)"
        by (simp_all add: digits.simps [of n] digits.simps [of m])
      from 1(1) [OF n e] have "n div 10 = m div 10" .
      moreover from d have "n mod 10 = m mod 10" by (intro digit_inj) simp_all
      ultimately show ?thesis by (metis div_mult_mod_eq)
    qed
  qed
qed

lemma digits_no_minus: "digits n \<noteq> CHR ''-'' # s"
proof
  assume "digits n = CHR ''-'' # s"
  then have "CHR ''-'' \<in> set (digits n)" by simp
  with digits_set [of n] show False by auto
qed

lemma Itoa_inj: "Itoa i = Itoa j \<Longrightarrow> i = j"
  using digits_no_minus digits_no_minus [symmetric]
  by (auto simp: Itoa_def split: if_splits dest!: digits_inj)

subsection \<open>Marshalled objects, member by member\<close>

text \<open>
  The members of a marshalled object are exactly the members its fields contribute;
  from this, which keys each struct writes, and when.
\<close>

lemma collect_mem:
  "collect fs = Inr ms \<Longrightarrow> (x \<in> set ms) = (\<exists>xs. Inr xs \<in> set fs \<and> x \<in> set xs)"
proof (induction fs arbitrary: ms rule: collect.induct)
  case 1
  then show ?case by simp
next
  case (2 e rest)
  then show ?case by simp
next
  case (3 xs rest)
  then obtain ys where r: "collect rest = Inr ys" and ms: "ms = xs @ ys"
    by (auto split: sum.splits)
  from 3(1) [OF r] ms show ?case by auto
qed

lemma struct_mem:
  "struct fs = Inr j \<Longrightarrow>
     \<exists>ms. j = JObj ms \<and> collect fs = Inr ms
          \<and> (\<forall>x. (x \<in> set ms) = (\<exists>xs. Inr xs \<in> set fs \<and> x \<in> set xs))"
  by (auto simp: struct_def collect_mem split: sum.splits)

lemma field_Inr: "(Inr xs = field n v) = (xs = [(n, v)])"
  by (auto simp: field_def)

lemma omitempty_Inr: "(Inr xs = omitempty n b v) = (xs = (if b then [] else [(n, v)]))"
  by (auto simp: omitempty_def)

lemma fallible_Inr: "(Inr xs = fallible n r) = (\<exists>v. r = Inr v \<and> xs = [(n, v)])"
  by (auto simp: fallible_def split: sum.splits)

lemma omitnil_Inr:
  "(Inr xs = omitnil n m p) =
     (case p of None \<Rightarrow> xs = [] | Some y \<Rightarrow> \<exists>v. m y = Inr v \<and> xs = [(n, v)])"
  by (auto simp: omitnil_def fallible_def split: option.splits sum.splits)

lemma keys_mem: "(k \<in> fst ` set ms) = (\<exists>v. (k, v) \<in> set ms)"
  by force

lemma in_Nil: "(\<exists>xs. Inr xs \<in> set [] \<and> x \<in> set xs) = False"
  by simp

lemma in_Cons:
  "(\<exists>xs. Inr xs \<in> set (f # fs) \<and> x \<in> set xs) =
     ((\<exists>xs. Inr xs = f \<and> x \<in> set xs) \<or> (\<exists>xs. Inr xs \<in> set fs \<and> x \<in> set xs))"
  by auto

lemma field_mem: "(\<exists>xs. Inr xs = field n v \<and> x \<in> set xs) = (x = (n, v))"
  by (auto simp: field_Inr)

lemma omitempty_mem: "(\<exists>xs. Inr xs = omitempty n b v \<and> x \<in> set xs) = (\<not> b \<and> x = (n, v))"
  by (auto simp: omitempty_Inr)

lemma fallible_mem: "(\<exists>xs. Inr xs = fallible n r \<and> x \<in> set xs) = (r = Inr (snd x) \<and> fst x = n)"
  by (auto simp: fallible_Inr)

lemma omitnil_mem:
  "(\<exists>xs. Inr xs = omitnil n m p \<and> x \<in> set xs) =
     (\<exists>y. p = Some y \<and> m y = Inr (snd x) \<and> fst x = n)"
  by (auto simp: omitnil_Inr split: option.splits)

lemmas mem_simps = in_Nil in_Cons field_mem omitempty_mem fallible_mem omitnil_mem

lemma collect_all_Inr: "collect fs = Inr ms \<Longrightarrow> f \<in> set fs \<Longrightarrow> \<exists>xs. f = Inr xs"
proof (induction fs arbitrary: ms rule: collect.induct)
  case 1
  then show ?case by simp
next
  case (2 e rest)
  then show ?case by simp
next
  case (3 xs rest)
  then show ?case by (auto split: sum.splits)
qed

lemma struct_all_Inr: "struct fs = Inr j \<Longrightarrow> f \<in> set fs \<Longrightarrow> \<exists>xs. f = Inr xs"
  by (auto simp: struct_def split: sum.splits dest: collect_all_Inr)

lemma omitnil_succeeds: "omitnil n m (Some y) = Inr xs \<Longrightarrow> \<exists>v. m y = Inr v"
  by (auto simp: omitnil_def fallible_def split: sum.splits)

lemma marshalSettings_members:
  assumes "marshalSettings s = Inr j"
  obtains ms where "j = JObj ms" and
    "\<And>x. (x \<in> set ms) =
      (Priority s \<noteq> 0 \<and> x = (''priority'', JNum (Itoa (Priority s)))
     \<or> Validity s \<noteq> 0 \<and> x = (''validity'', JNum (Itoa (Validity s)))
     \<or> Differentiator s \<noteq> [] \<and> x = (''differentiator'', JStr (Differentiator s))
     \<or> Age s \<noteq> 0 \<and> x = (''age'', JNum (Itoa (Age s)))
     \<or> NewSession s \<and> x = (''newSession'', JBool (NewSession s))
     \<or> Settings.SessionID s \<noteq> [] \<and> x = (''sessionId'', JStr (Settings.SessionID s))
     \<or> InvoiceNode s \<noteq> [] \<and> x = (''invoiceNode'', JStr (InvoiceNode s))
     \<or> AutoDetectEncoding s \<and> x = (''autoDetectEncoding'', JBool (AutoDetectEncoding s))
     \<or> SafeRemoveNonGsmCharacters s \<and> x = (''safeRemoveNonGsmCharacters'', JBool (SafeRemoveNonGsmCharacters s))
     \<or> (\<exists>y. OriginatorSettings s = Some y \<and> marshalOriginatorSettings y = Inr (snd x)
              \<and> fst x = ''originatorSettings'')
     \<or> (\<exists>y. GasSettings s = Some y \<and> marshalGasSettings y = Inr (snd x)
              \<and> fst x = ''gasSettings'')
     \<or> (\<exists>y. SendWindow s = Some y \<and> marshalSendWindow y = Inr (snd x)
              \<and> fst x = ''sendWindow'')
     \<or> Parameters s \<noteq> [] \<and> x = (''parameter'', marshalParameters (Parameters s)))"
proof -
  from struct_mem [OF assms [unfolded marshalSettings_def]]
  obtain ms where j: "j = JObj ms"
    and m: "\<And>x. (x \<in> set ms) = (\<exists>xs. Inr xs \<in> set
     [omitempty ''priority'' (Priority s = 0) (JNum (Itoa (Priority s))),
      omitempty ''validity'' (Validity s = 0) (JNum (Itoa (Validity s))),
      omitempty ''differentiator'' (Differentiator s = []) (JStr (Differentiator s)),
      omitempty ''age'' (Age s = 0) (JNum (Itoa (Age s))),
      omitempty ''newSession'' (\<not> NewSession s) (JBool (NewSession s)),
      omitempty ''sessionId'' (Settings.SessionID s = []) (JStr (Settings.SessionID s)),
      omitempty ''invoiceNode'' (InvoiceNode s = []) (JStr (InvoiceNode s)),
      omitempty ''autoDetectEncoding'' (\<not> AutoDetectEncoding s) (JBool (AutoDetectEncoding s)),
      omitempty ''safeRemoveNonGsmCharacters'' (\<not> SafeRemoveNonGsmCharacters s)
        (JBool (SafeRemoveNonGsmCharacters s)),
      omitnil ''originatorSettings'' marshalOriginatorSettings (OriginatorSettings s),
      omitnil ''gasSettings'' marshalGasSettings (GasSettings s),
      omitnil ''sendWindow'' marshalSendWindow (SendWindow s),
      omitempty ''parameter'' (length (Parameters s) = 0) (marshalParameters (Parameters s))]
      \<and> x \<in> set xs)"
    by blast
  note m = m [unfolded mem_simps]
  show thesis
  proof (rule that [OF j])
    fix x
    show "(x \<in> set ms) =
      (Priority s \<noteq> 0 \<and> x = (''priority'', JNum (Itoa (Priority s)))
     \<or> Validity s \<noteq> 0 \<and> x = (''validity'', JNum (Itoa (Validity s)))
     \<or> Differentiator s \<noteq> [] \<and> x = (''differentiator'', JStr (Differentiator s))
     \<or> Age s \<noteq> 0 \<and> x = (''age'', JNum (Itoa (Age s)))
     \<or> NewSession s \<and> x = (''newSession'', JBool (NewSession s))
     \<or> Settings.SessionID s \<noteq> [] \<and> x = (''sessionId'', JStr (Settings.SessionID s))
     \<or> InvoiceNode s \<noteq> [] \<and> x = (''invoiceNode'', JStr (InvoiceNode s))
     \<or> AutoDetectEncoding s \<and> x = (''autoDetectEncoding'', JBool (AutoDetectEncoding s))
     \<or> SafeRemoveNonGsmCharacters s \<and> x = (''safeRemoveNonGsmCharacters'', JBool (SafeRemoveNonGsmCharacters s))
     \<or> (\<exists>y. OriginatorSettings s = Some y \<and> marshalOriginatorSettings y = Inr (snd x)
              \<and> fst x = ''originatorSettings'')
     \<or> (\<exists>y. GasSettings s = Some y \<and> marshalGasSettings y = Inr (snd x)
              \<and> fst x = ''gasSettings'')
     \<or> (\<exists>y. SendWindow s = Some y \<and> marshalSendWindow y = Inr (snd x)
              \<and> fst x = ''sendWindow'')
     \<or> Parameters s \<noteq> [] \<and> x = (''parameter'', marshalParameters (Parameters s)))"
      unfolding m by simp
  qed
qed

lemma marshalOriginatorSettings_total: "\<exists>v. marshalOriginatorSettings y = Inr v"
  by (simp add: marshalOriginatorSettings_def struct_def field_def)

lemma marshalGasSettings_total: "\<exists>v. marshalGasSettings y = Inr v"
  by (simp add: marshalGasSettings_def struct_def field_def omitempty_def)

lemma marshalSettings_sendWindow:
  assumes "marshalSettings s = Inr j" and "SendWindow s = Some y"
  shows "\<exists>v. marshalSendWindow y = Inr v"
proof -
  have "omitnil ''sendWindow'' marshalSendWindow (SendWindow s) \<in> set
     [omitempty ''priority'' (Priority s = 0) (JNum (Itoa (Priority s))),
      omitempty ''validity'' (Validity s = 0) (JNum (Itoa (Validity s))),
      omitempty ''differentiator'' (Differentiator s = []) (JStr (Differentiator s)),
      omitempty ''age'' (Age s = 0) (JNum (Itoa (Age s))),
      omitempty ''newSession'' (\<not> NewSession s) (JBool (NewSession s)),
      omitempty ''sessionId'' (Settings.SessionID s = []) (JStr (Settings.SessionID s)),
      omitempty ''invoiceNode'' (InvoiceNode s = []) (JStr (InvoiceNode s)),
      omitempty ''autoDetectEncoding'' (\<not> AutoDetectEncoding s) (JBool (AutoDetectEncoding s)),
      omitempty ''safeRemoveNonGsmCharacters'' (\<not> SafeRemoveNonGsmCharacters s)
        (JBool (SafeRemoveNonGsmCharacters s)),
      omitnil ''originatorSettings'' marshalOriginatorSettings (OriginatorSettings s),
      omitnil ''gasSettings'' marshalGasSettings (GasSettings s),
      omitnil ''sendWindow'' marshalSendWindow (SendWindow s),
      omitempty ''parameter'' (length (Parameters s) = 0) (marshalParameters (Parameters s))]"
    by simp
  from struct_all_Inr [OF assms(1) [unfolded marshalSettings_def] this] assms(2)
  show ?thesis by (auto dest: omitnil_succeeds)
qed

lemma marshalSettings_keys:
  assumes "marshalSettings s = Inr j"
  shows "(k \<in> set (keys j)) =
      (Priority s \<noteq> 0 \<and> k = ''priority''
     \<or> Validity s \<noteq> 0 \<and> k = ''validity''
     \<or> Differentiator s \<noteq> [] \<and> k = ''differentiator''
     \<or> Age s \<noteq> 0 \<and> k = ''age''
     \<or> NewSession s \<and> k = ''newSession''
     \<or> Settings.SessionID s \<noteq> [] \<and> k = ''sessionId''
     \<or> InvoiceNode s \<noteq> [] \<and> k = ''invoiceNode''
     \<or> AutoDetectEncoding s \<and> k = ''autoDetectEncoding''
     \<or> SafeRemoveNonGsmCharacters s \<and> k = ''safeRemoveNonGsmCharacters''
     \<or> OriginatorSettings s \<noteq> None \<and> k = ''originatorSettings''
     \<or> GasSettings s \<noteq> None \<and> k = ''gasSettings''
     \<or> SendWindow s \<noteq> None \<and> k = ''sendWindow''
     \<or> Parameters s \<noteq> [] \<and> k = ''parameter'')"
proof (cases rule: marshalSettings_members [OF assms])
  case (1 ms)
  have o: "(\<exists>v y. OriginatorSettings s = Some y \<and> marshalOriginatorSettings y = Inr v \<and> P)
             = (OriginatorSettings s \<noteq> None \<and> P)" for P
    using marshalOriginatorSettings_total by auto
  have g: "(\<exists>v y. GasSettings s = Some y \<and> marshalGasSettings y = Inr v \<and> P)
             = (GasSettings s \<noteq> None \<and> P)" for P
    using marshalGasSettings_total by auto
  have w: "(\<exists>v y. SendWindow s = Some y \<and> marshalSendWindow y = Inr v \<and> P)
             = (SendWindow s \<noteq> None \<and> P)" for P
    using marshalSettings_sendWindow [OF assms] by auto
  show ?thesis
    unfolding 1(1) keys.simps set_map keys_mem 1(2)
    by (simp add: ex_disj_distrib o g w del: not_None_eq)
qed

lemma marshalMessage_keys:
  assumes "marshalMessage m = Inr j"
  shows "keys j = [''recipient'', ''content'', ''price'']
           @ (if Message.ClientReference m = [] then [] else [''clientReference''])
           @ (if Settings m = None then [] else [''settings''])"
  using assms
  by (auto simp: marshalMessage_def struct_def field_def omitempty_def omitnil_def fallible_def
      split: sum.splits option.splits)

lemma marshalGasSettings_keys:
  assumes "marshalGasSettings g = Inr j"
  shows "keys j = ''serviceCode'' # (if Description g = [] then [] else [''description''])"
  using assms
  by (auto simp: marshalGasSettings_def struct_def field_def omitempty_def)

lemma marshalSendWindow_keys:
  assumes "marshalSendWindow w = Inr j"
  shows "keys j = ''startDate''
           # (if StartTime w = None then [] else [''startTime''])
           @ (if StopDate w = None then [] else [''stopDate''])
           @ (if StopTime w = None then [] else [''stopTime''])"
  using assms
  by (auto simp: marshalSendWindow_def struct_def omitnil_def fallible_def
      split: sum.splits option.splits)

lemma Marshal_members:
  assumes "Marshal r = Inr j"
  shows "\<exists>message. marshalMessages (Messages r) = Inr message
           \<and> j = JObj ([(''serviceId'', JNum (Itoa (ServiceID r))),
                       (''username'', JStr (Username r)),
                       (''password'', JStr (Password r))]
                      @ (if smsGatewayRequest.BatchReference r = [] then []
                         else [(''batchReference'', JStr (smsGatewayRequest.BatchReference r))])
                      @ [(''message'', message)])"
  using assms
  by (auto simp: Marshal_def struct_def field_def omitempty_def fallible_def split: sum.splits)

lemma Marshal_keys:
  assumes "Marshal r = Inr j"
  shows "keys j = [''serviceId'', ''username'', ''password'']
           @ (if smsGatewayRequest.BatchReference r = [] then [] else [''batchReference''])
           @ [''message'']"
  using Marshal_members [OF assms] by auto

lemma marshalAll_map: "marshalAll f xs = Inr vs \<Longrightarrow> map f xs = map Inr vs"
  by (induction xs arbitrary: vs) (auto split: sum.splits)

lemma marshalMessages_shape:
  assumes "marshalMessages messages = Inr message"
  shows "case messages of
           None \<Rightarrow> message = JNull
         | Some xs \<Rightarrow> \<exists>vs. message = JArr vs \<and> map marshalMessage xs = map Inr vs"
  using assms
  by (auto simp: marshalMessages_def split: option.splits sum.splits dest: marshalAll_map)

text \<open>
  A request that \<open>Send\<close> hands to the HTTP client carries the marshalled envelope
  as its body. What holds of every marshalled message holds of each value in the
  \<open>message\<close> array of that body, and what holds of all marshalled settings holds
  of the \<open>settings\<close> member of a marshalled message.
\<close>

lemma issued_body:
  assumes "request \<in> set (issued (Send net client messages))"
  shows "Marshal (gatewayRequest client messages) = Inr (Request.Body request)"
  using assms
  by (auto simp: Send_def createRequest_def NewRequest_def
      split: sum.splits option.splits if_splits)

lemma map_Inr_all2:
  assumes "map f xs = map Inr vs" and "\<And>x v. f x = Inr v \<Longrightarrow> P x v"
  shows "list_all2 P xs vs"
  using assms
proof (induction xs arbitrary: vs)
  case Nil
  then show ?case by simp
next
  case (Cons x xs)
  then show ?case by (cases vs) auto
qed

lemma Marshal_eachMessage:
  assumes "Marshal (gatewayRequest client messages) = Inr body"
    and "\<And>m j. marshalMessage m = Inr j \<Longrightarrow> P m j"
  shows "''batchReference'' \<notin> set (keys body) \<and> eachMessage P messages body"
proof -
  from Marshal_members [OF assms(1)] obtain message
    where mm: "marshalMessages messages = Inr message"
      and b: "body = JObj [(''serviceId'', JNum (Itoa (serviceID client))),
                           (''username'', JStr (username client)),
                           (''password'', JStr (password client)),
                           (''message'', message)]"
    by (auto simp: gatewayRequest_def)
  have "case messages of
          None \<Rightarrow> message = JNull
        | Some ms \<Rightarrow> (case message of JArr vs \<Rightarrow> list_all2 P ms vs | _ \<Rightarrow> False)"
  proof (cases messages)
    case None
    with marshalMessages_shape [OF mm] show ?thesis by simp
  next
    case (Some ms)
    with marshalMessages_shape [OF mm] obtain vs where
      vs: "message = JArr vs" "map marshalMessage ms = map Inr vs" by auto
    from map_Inr_all2 [OF vs(2), of P] assms(2) have "list_all2 P ms vs" by blast
    with Some vs(1) show ?thesis by simp
  qed
  with b show ?thesis by (simp add: eachMessage_def)
qed

lemma marshalMessage_members:
  assumes "marshalMessage m = Inr j"
  shows "\<exists>tail. (case Settings m of
                   None \<Rightarrow> tail = []
                 | Some s \<Rightarrow> \<exists>js. marshalSettings s = Inr js \<and> tail = [(''settings'', js)])
           \<and> j = JObj ([(''recipient'', JStr (Message.Recipient m)),
                        (''content'', JStr (Content m)),
                        (''price'', JNum (Itoa (Price m)))]
                       @ (if Message.ClientReference m = [] then []
                          else [(''clientReference'', JStr (Message.ClientReference m))])
                       @ tail)"
  using assms
  by (auto simp: marshalMessage_def struct_def field_def omitempty_def omitnil_def fallible_def
      split: sum.splits option.splits)

lemma marshalMessage_settings:
  assumes "marshalMessage m = Inr j"
    and "\<And>s js. marshalSettings s = Inr js \<Longrightarrow> P s js"
  shows "optionalObject ''settings'' (Settings m) P j"
proof (cases "Settings m")
  case None
  then show ?thesis
    by (simp add: optionalObject_def marshalMessage_keys [OF assms(1)])
next
  case (Some s)
  with marshalMessage_members [OF assms(1)] obtain js where
    js: "marshalSettings s = Inr js"
    and j: "j = JObj ([(''recipient'', JStr (Message.Recipient m)),
                        (''content'', JStr (Content m)),
                        (''price'', JNum (Itoa (Price m)))]
                       @ (if Message.ClientReference m = [] then []
                          else [(''clientReference'', JStr (Message.ClientReference m))])
                       @ [(''settings'', js)])"
    by auto
  have "list_all (\<lambda>(k, v). k = ''settings'' \<longrightarrow> P s v) (objectMembers j)"
    unfolding j using assms(2) [OF js] by simp
  moreover have "''settings'' \<in> set (keys j)"
    using Some by (simp add: marshalMessage_keys [OF assms(1)])
  ultimately show ?thesis using Some by (simp add: optionalObject_def)
qed

lemma marshalSettings_gasSettings:
  assumes "marshalSettings s = Inr j"
  shows "optionalObject ''gasSettings'' (GasSettings s) omitsUnsetGasSettings j"
proof (cases rule: marshalSettings_members [OF assms])
  case (1 ms)
  show ?thesis
  proof (cases "GasSettings s")
    case None
    then show ?thesis by (simp add: optionalObject_def marshalSettings_keys [OF assms])
  next
    case (Some g)
    have "omitsUnsetGasSettings g v" if "(''gasSettings'', v) \<in> set ms" for v
    proof -
      from that [unfolded 1(2)] Some have "marshalGasSettings g = Inr v" by simp
      from marshalGasSettings_keys [OF this] show ?thesis
        by (simp add: omitsUnsetGasSettings_def)
    qed
    then have "list_all (\<lambda>(k, v). k = ''gasSettings'' \<longrightarrow> omitsUnsetGasSettings g v) (objectMembers j)"
      unfolding 1(1) by (auto simp: list_all_iff)
    moreover have "''gasSettings'' \<in> set (keys j)"
      using Some by (simp add: marshalSettings_keys [OF assms])
    ultimately show ?thesis using Some by (simp add: optionalObject_def)
  qed
qed

lemma marshalSettings_sendWindow_omits:
  assumes "marshalSettings s = Inr j"
  shows "optionalObject ''sendWindow'' (SendWindow s) omitsUnsetSendWindow j"
proof (cases rule: marshalSettings_members [OF assms])
  case (1 ms)
  show ?thesis
  proof (cases "SendWindow s")
    case None
    then show ?thesis by (simp add: optionalObject_def marshalSettings_keys [OF assms])
  next
    case (Some w)
    have "omitsUnsetSendWindow w v" if "(''sendWindow'', v) \<in> set ms" for v
    proof -
      from that [unfolded 1(2)] Some have "marshalSendWindow w = Inr v" by simp
      from marshalSendWindow_keys [OF this] show ?thesis
        by (simp add: omitsUnsetSendWindow_def)
    qed
    then have "list_all (\<lambda>(k, v). k = ''sendWindow'' \<longrightarrow> omitsUnsetSendWindow w v) (objectMembers j)"
      unfolding 1(1) by (auto simp: list_all_iff)
    moreover have "''sendWindow'' \<in> set (keys j)"
      using Some by (simp add: marshalSettings_keys [OF assms])
    ultimately show ?thesis using Some by (simp add: optionalObject_def)
  qed
qed

lemma marshalSettings_omitsUnset:
  assumes "marshalSettings s = Inr j"
  shows "omitsUnsetSettings s j"
  unfolding omitsUnsetSettings_def
  using marshalSettings_gasSettings [OF assms] marshalSettings_sendWindow_omits [OF assms]
  by (simp add: marshalSettings_keys [OF assms])

lemma marshalMessage_omitsUnset:
  assumes "marshalMessage m = Inr j"
  shows "omitsUnsetMessage m j"
  unfolding omitsUnsetMessage_def
  using marshalMessage_settings [OF assms, of omitsUnsetSettings] marshalSettings_omitsUnset
  by (simp add: marshalMessage_keys [OF assms])

lemma marshalSettings_zeroAge:
  assumes "marshalSettings s = Inr j"
  shows "omitsZeroAgeFalseFlags s j"
proof (cases rule: marshalSettings_members [OF assms])
  case (1 ms)
  have zero: "Itoa (Age s) = ''0'' \<Longrightarrow> Age s = 0"
    using Itoa_inj [of "Age s" 0] by (simp add: Itoa_def digits.simps)
  have "(''age'', JNum ''0'') \<notin> set ms"
    unfolding 1(2) using zero by auto
  with 1(1) have "(''age'', JNum ''0'') \<notin> set (objectMembers j)" by simp
  then show ?thesis
    unfolding omitsZeroAgeFalseFlags_def by (simp add: marshalSettings_keys [OF assms])
qed

subsection \<open>The decoder's errors\<close>























subsection \<open>The scanner consumes its input\<close>

text \<open>
  A scanned value leaves less input than it was given. So the tests on lengths in
  \<open>scanElements\<close> and \<open>scanMembers\<close>, which are there for the termination
  proof, never fail: both functions satisfy their equations without these tests.
\<close>

lemma keep_Inr: "(keep c r = Inr (lit, rest)) = (\<exists>lit'. r = Inr (lit', rest) \<and> lit = c # lit')"
  by (cases r) (auto simp: keep_def)

lemma scanString_shorter: "scanString st s = Inr (lit, rest) \<Longrightarrow> length rest < length s"
proof (induction st s arbitrary: lit rule: scanString.induct)
  case (1 st)
  then show ?case by simp
next
  case (2 c s)
  then show ?case by (auto simp: keep_Inr split: if_splits)
next
  case (3 c s)
  then show ?case by (auto simp: keep_Inr split: if_splits)
next
  case (4 n c s)
  then show ?case by (auto simp: keep_Inr split: if_splits)
qed

lemma scanNumber_shorter: "scanNumber st s = Inr (lit, rest) \<Longrightarrow> length rest \<le> length s"
proof (induction st s arbitrary: lit rule: scanNumber.induct)
qed (auto simp: keep_Inr split: if_splits)

lemma scanLiteral_shorter: "scanLiteral l s = Inr rest \<Longrightarrow> length rest \<le> length s"
  by (induction l s rule: scanLiteral.induct) (auto split: if_splits)

lemma skipSpace_shorter: "skipSpace s = c # r \<Longrightarrow> length r < length s"
proof -
  assume a: "skipSpace s = c # r"
  have "length (dropWhile isSpace s) \<le> length s" by (rule length_dropWhile_le)
  with a show ?thesis by (simp add: skipSpace_def)
qed

lemma number_Inr:
  "(number pre r = Inr (v, rest)) = (\<exists>lit. r = Inr (lit, rest) \<and> v = JNum (pre @ lit))"
  by (cases r) (auto simp: number_def)

lemma literal_Inr: "(literal v r = Inr (v', rest)) = (r = Inr rest \<and> v' = v)"
  by (cases r) (auto simp: literal_def)

lemma skipSpace_le: "length (skipSpace s) \<le> length s"
  by (simp add: skipSpace_def length_dropWhile_le)

lemma scan_shorter:
  "(\<forall>v rest. scanValue d s = Inr (v, rest) \<longrightarrow> length rest < length s)"
  "(\<forall>vs rest. scanElements d' s' = Inr (vs, rest) \<longrightarrow> length rest < length s')"
  "(\<forall>ms rest. scanMembers d'' s'' = Inr (ms, rest) \<longrightarrow> length rest < length s'')"
proof (induction d s and d' s' and d'' s'' rule: scanValue_scanElements_scanMembers.induct)
  case (1 depth s)
  show ?case
  proof (intro allI impI)
    fix v rest
    assume a: "scanValue depth s = Inr (v, rest)"
    show "length rest < length s"
    proof (cases "skipSpace s")
      case Nil
      with a show ?thesis by (subst (asm) scanValue.simps) simp
    next
      case (Cons c r)
      note s = Cons
      note rs = skipSpace_shorter [OF s]
      show ?thesis
      proof (cases "c = CHR ''{''")
        case True
        note c = True
        show ?thesis
        proof (cases "depth \<ge> 10000")
          case True
          with a s c show ?thesis by (subst (asm) scanValue.simps) simp
        next
          case False
          note d = False
          show ?thesis
          proof (cases "skipSpace r")
            case Nil
            with a s c d show ?thesis by (subst (asm) scanValue.simps) simp
          next
            case (Cons c' r')
            from skipSpace_le [of r] Cons have le: "length (c' # r') \<le> length r" by simp
            show ?thesis
            proof (cases "c' = CHR ''}''")
              case True
              with a s c d Cons have "rest = r'" by (subst (asm) scanValue.simps) simp
              with le rs show ?thesis by simp
            next
              case False
              with a s c d Cons obtain ms where
                "scanMembers (Suc depth) (c' # r') = Inr (ms, rest)"
                by (subst (asm) scanValue.simps) (auto split: sum.splits)
              with "1.IH"(1) [OF s c _ Cons False] d
              have "length rest < length (c' # r')" by simp
              with le rs show ?thesis by simp
            qed
          qed
        qed
      next
        case False
        note nc = False
        show ?thesis
        proof (cases "c = CHR ''[''")
          case True
          note c = True
          show ?thesis
          proof (cases "depth \<ge> 10000")
            case True
            with a s c nc show ?thesis by (subst (asm) scanValue.simps) simp
          next
            case False
            note d = False
            show ?thesis
            proof (cases "skipSpace r")
              case Nil
              with a s c nc d show ?thesis by (subst (asm) scanValue.simps) simp
            next
              case (Cons c' r')
              from skipSpace_le [of r] Cons have le: "length (c' # r') \<le> length r" by simp
              show ?thesis
              proof (cases "c' = CHR '']''")
                case True
                with a s c nc d Cons have "rest = r'" by (subst (asm) scanValue.simps) simp
                with le rs show ?thesis by simp
              next
                case False
                with a s c nc d Cons obtain vs where
                  "scanElements (Suc depth) (c' # r') = Inr (vs, rest)"
                  by (subst (asm) scanValue.simps) (auto split: sum.splits)
                with "1.IH"(2) [OF s nc c _ Cons False] d
                have "length rest < length (c' # r')" by simp
                with le rs show ?thesis by simp
              qed
            qed
          qed
        next
          case False
          with a s nc have "length rest \<le> length r"
            by (subst (asm) scanValue.simps)
               (auto simp: number_Inr literal_Inr split: if_splits sum.splits
                  dest: scanString_shorter scanNumber_shorter scanLiteral_shorter)
          with rs show ?thesis by simp
        qed
      qed
    qed
  qed
next
  case (2 depth s)
  show ?case
  proof (intro allI impI)
    fix vs rest
    assume a: "scanElements depth s = Inr (vs, rest)"
    show "length rest < length s"
    proof (cases "scanValue depth s")
      case (Inl e)
      with a show ?thesis by (subst (asm) scanElements.simps) simp
    next
      case (Inr p)
      obtain v rest0 where p: "p = (v, rest0)" by (cases p)
      note val = Inr [unfolded p]
      from "2.IH"(1) val have l0: "length rest0 < length s" by simp
      show ?thesis
      proof (cases "skipSpace rest0")
        case Nil
        with a val show ?thesis by (subst (asm) scanElements.simps) simp
      next
        case (Cons c r)
        from skipSpace_shorter [OF Cons] l0 have lr: "length r < length s" by simp
        show ?thesis
        proof (cases "c = CHR '',''")
          case True
          with a val Cons lr obtain vs' where "scanElements depth r = Inr (vs', rest)"
            by (subst (asm) scanElements.simps) (auto split: sum.splits)
          with "2.IH"(2) [OF val refl Cons True lr] have "length rest < length r" by simp
          with lr show ?thesis by simp
        next
          case False
          with a val Cons have "rest = r"
            by (subst (asm) scanElements.simps) (auto split: if_splits)
          with lr show ?thesis by simp
        qed
      qed
    qed
  qed
next
  case (3 depth s)
  show ?case
  proof (intro allI impI)
    fix ms rest
    assume a: "scanMembers depth s = Inr (ms, rest)"
    show "length rest < length s"
    proof (cases "skipSpace s")
      case Nil
      with a show ?thesis by (subst (asm) scanMembers.simps) simp
    next
      case (Cons c r)
      note s = Cons
      note rs = skipSpace_shorter [OF s]
      show ?thesis
      proof (cases "c = dq")
        case False
        with a s show ?thesis by (subst (asm) scanMembers.simps) simp
      next
        case True
        note c = True
        show ?thesis
        proof (cases "scanString InString r")
          case (Inl e)
          with a s c show ?thesis by (subst (asm) scanMembers.simps) simp
        next
          case (Inr p)
          obtain lit rest1 where p: "p = (lit, rest1)" by (cases p)
          note str = Inr [unfolded p]
          from scanString_shorter [OF str] rs have l1: "length rest1 < length s" by simp
          show ?thesis
          proof (cases "skipSpace rest1")
            case Nil
            with a s c str show ?thesis by (subst (asm) scanMembers.simps) simp
          next
            case (Cons c' r')
            note colon = Cons
            from skipSpace_shorter [OF colon] l1 have l2: "length r' < length s" by simp
            show ?thesis
            proof (cases "c' = CHR '':''")
              case False
              with a s c str colon show ?thesis by (subst (asm) scanMembers.simps) simp
            next
              case True
              note ok = True
              show ?thesis
              proof (cases "scanValue depth r'")
                case (Inl e)
                with a s c str colon ok l2 show ?thesis
                  by (subst (asm) scanMembers.simps) simp
              next
                case (Inr p')
                obtain v rest2 where p': "p' = (v, rest2)" by (cases p')
                note val = Inr [unfolded p']
                from "3.IH"(1) [OF s _ str refl colon _ l2] c ok val
                have "length rest2 < length r'" by simp
                with l2 have l3: "length rest2 < length s" by simp
                show ?thesis
                proof (cases "skipSpace rest2")
                  case Nil
                  with a s c str colon ok l2 val show ?thesis
                    by (subst (asm) scanMembers.simps) simp
                next
                  case (Cons c'' r'')
                  note after = Cons
                  from skipSpace_shorter [OF after] l3 have l4: "length r'' < length s" by simp
                  show ?thesis
                  proof (cases "quoted lit")
                    case (Inl e)
                    with a s c str colon ok l2 val after show ?thesis
                      by (subst (asm) scanMembers.simps) (auto split: if_splits)
                  next
                    case (Inr key)
                    show ?thesis
                    proof (cases "c'' = CHR '',''")
                      case False
                      with a s c str colon ok l2 val after Inr have "rest = r''"
                        by (subst (asm) scanMembers.simps) (auto split: if_splits)
                      with l4 show ?thesis by simp
                    next
                      case True
                      with a s c str colon ok l2 val after Inr l4 obtain ms' where
                        m: "scanMembers depth r'' = Inr (ms', rest)"
                        by (subst (asm) scanMembers.simps) (auto split: sum.splits)
                      from "3.IH"(2) [OF s _ str refl colon _ l2 val refl after True l4 Inr]
                        c ok m
                      have "length rest < length r''" by simp
                      with l4 show ?thesis by simp
                    qed
                  qed
                qed
              qed
            qed
          qed
        qed
      qed
    qed
  qed
qed

lemma scanValue_shorter: "scanValue d s = Inr (v, rest) \<Longrightarrow> length rest < length s"
  using scan_shorter(1) by blast

lemma scanElements_unguarded:
  "scanElements depth s =
     (case scanValue depth s of
        Inl e \<Rightarrow> Inl e
      | Inr (v, rest) \<Rightarrow>
          (case skipSpace rest of
             [] \<Rightarrow> Inl ErrUnexpectedEOF
           | c # r \<Rightarrow>
               if c = CHR '','' then
                 (case scanElements depth r of
                    Inl e \<Rightarrow> Inl e
                  | Inr (vs, rest') \<Rightarrow> Inr (v # vs, rest'))
               else if c = CHR '']'' then Inr ([v], r)
               else Inl SyntaxError))"
proof (cases "scanValue depth s")
  case (Inl e)
  then show ?thesis by (subst scanElements.simps) simp
next
  case (Inr p)
  obtain v rest where p: "p = (v, rest)" by (cases p)
  note val = Inr [unfolded p]
  show ?thesis
  proof (cases "skipSpace rest")
    case Nil
    with val show ?thesis by (subst scanElements.simps) simp
  next
    case (Cons c r)
    from skipSpace_shorter [OF Cons] scanValue_shorter [OF val]
    have "length r < length s" by simp
    with val Cons show ?thesis by (subst scanElements.simps) simp
  qed
qed

lemma scanMembers_unguarded:
  "scanMembers depth s =
     (case skipSpace s of
        [] \<Rightarrow> Inl ErrUnexpectedEOF
      | c # r \<Rightarrow>
          if c \<noteq> dq then Inl SyntaxError
          else
            (case scanString InString r of
               Inl e \<Rightarrow> Inl e
             | Inr (lit, rest) \<Rightarrow>
                 (case skipSpace rest of
                    [] \<Rightarrow> Inl ErrUnexpectedEOF
                  | c' # r' \<Rightarrow>
                      if c' \<noteq> CHR '':'' then Inl SyntaxError
                      else
                        (case scanValue depth r' of
                           Inl e \<Rightarrow> Inl e
                         | Inr (v, rest') \<Rightarrow>
                             (case skipSpace rest' of
                                [] \<Rightarrow> Inl ErrUnexpectedEOF
                              | c'' # r'' \<Rightarrow>
                                  if c'' = CHR '','' then
                                    (case quoted lit of
                                       Inl e \<Rightarrow> Inl e
                                     | Inr key \<Rightarrow>
                                         (case scanMembers depth r'' of
                                            Inl e \<Rightarrow> Inl e
                                          | Inr (ms, rest'') \<Rightarrow> Inr ((key, v) # ms, rest'')))
                                  else if c'' = CHR ''}'' then
                                    (case quoted lit of
                                       Inl e \<Rightarrow> Inl e
                                     | Inr key \<Rightarrow> Inr ([(key, v)], r''))
                                  else Inl SyntaxError)))))"
proof (cases "skipSpace s")
  case Nil
  then show ?thesis by (subst scanMembers.simps) simp
next
  case (Cons c r)
  note s = Cons
  note rs = skipSpace_shorter [OF s]
  show ?thesis
  proof (cases "scanString InString r")
    case (Inl e)
    with s show ?thesis by (subst scanMembers.simps) simp
  next
    case (Inr p)
    obtain lit rest where p: "p = (lit, rest)" by (cases p)
    note str = Inr [unfolded p]
    from scanString_shorter [OF str] rs have l1: "length rest < length s" by simp
    show ?thesis
    proof (cases "skipSpace rest")
      case Nil
      with s str show ?thesis by (subst scanMembers.simps) simp
    next
      case (Cons c' r')
      note colon = Cons
      from skipSpace_shorter [OF colon] l1 have l2: "length r' < length s" by simp
      show ?thesis
      proof (cases "scanValue depth r'")
        case (Inl e)
        with s str colon l2 show ?thesis by (subst scanMembers.simps) simp
      next
        case (Inr p')
        obtain v rest' where p': "p' = (v, rest')" by (cases p')
        note val = Inr [unfolded p']
        from scanValue_shorter [OF val] l2 have l3: "length rest' < length s" by simp
        show ?thesis
        proof (cases "skipSpace rest'")
          case Nil
          with s str colon l2 val show ?thesis by (subst scanMembers.simps) simp
        next
          case (Cons c'' r'')
          from skipSpace_shorter [OF Cons] l3 have "length r'' < length s" by simp
          with s str colon l2 val Cons show ?thesis by (subst scanMembers.simps) simp
        qed
      qed
    qed
  qed
qed

subsection \<open>A scanned string literal unquotes\<close>

text \<open>
  \<open>unquoteBytes\<close> can fail, as the Go function can, but not on a literal that
  \<open>scanString\<close> accepted: the error branch of \<open>quoted\<close> is never taken in
  \<open>scanValue\<close>.
\<close>

lemma scanString_literal:
  "scanString st s = Inr (lit, rest) \<Longrightarrow> scanString st (lit @ [dq]) = Inr (lit, [])"
proof (induction st s arbitrary: lit rule: scanString.induct)
  case (1 st)
  then show ?case by simp
next
  case (2 c s)
  then show ?case by (auto simp: keep_Inr split: if_splits)
next
  case (3 c s)
  then show ?case by (auto simp: keep_Inr split: if_splits)
next
  case (4 n c s)
  then show ?case by (auto simp: keep_Inr split: if_splits)
qed

lemma closed_plain:
  assumes "scanString InString ((c # s) @ [dq]) = Inr (c # s, [])"
    and "c \<noteq> bs"
  shows "c \<noteq> dq \<and> \<not> c < CHR 0x20 \<and> scanString InString (s @ [dq]) = Inr (s, [])"
  using assms by (auto simp: keep_Inr split: if_splits)

lemma closed_hex:
  assumes "scanString (InStringEscU n) (t @ [dq]) = Inr (t, [])" and "n = 4"
  shows "\<exists>h1 h2 h3 h4 t'. t = h1 # h2 # h3 # h4 # t' \<and> isHex h1 \<and> isHex h2 \<and> isHex h3
           \<and> isHex h4 \<and> scanString InString (t' @ [dq]) = Inr (t', [])"
proof -
  have step: "\<exists>h t'. t = h # t' \<and> isHex h
      \<and> scanString (if n \<le> 1 then InString else InStringEscU (n - 1)) (t' @ [dq]) = Inr (t', [])"
    if "scanString (InStringEscU n) (t @ [dq]) = Inr (t, [])" for n t
  proof (cases t)
    case Nil
    with that show ?thesis by (simp add: dq_def isHex_def isDigit_def split: if_splits)
  next
    case (Cons h t')
    with that show ?thesis by (auto simp: keep_Inr split: if_splits)
  qed
  from step [OF assms(1)] assms(2) obtain h1 t1 where
    1: "t = h1 # t1" "isHex h1" "scanString (InStringEscU 3) (t1 @ [dq]) = Inr (t1, [])"
    by auto
  from step [OF 1(3)] obtain h2 t2 where
    2: "t1 = h2 # t2" "isHex h2" "scanString (InStringEscU 2) (t2 @ [dq]) = Inr (t2, [])"
    by auto
  from step [OF 2(3)] obtain h3 t3 where
    3: "t2 = h3 # t3" "isHex h3" "scanString (InStringEscU 1) (t3 @ [dq]) = Inr (t3, [])"
    by auto
  from step [OF 3(3)] obtain h4 t4 where
    4: "t3 = h4 # t4" "isHex h4" "scanString InString (t4 @ [dq]) = Inr (t4, [])"
    by auto
  from 1 2 3 4 show ?thesis by simp
qed

lemma closed_escape:
  assumes "scanString InString ((bs # s) @ [dq]) = Inr (bs # s, [])"
  obtains (simple) e s' where "s = e # s'"
      and "e = CHR ''b'' \<or> e = CHR ''f'' \<or> e = CHR ''n'' \<or> e = CHR ''r'' \<or> e = CHR ''t''
        \<or> e = bs \<or> e = CHR ''/'' \<or> e = dq"
      and "scanString InString (s' @ [dq]) = Inr (s', [])"
    | (unicode) h1 h2 h3 h4 t' where "s = CHR ''u'' # h1 # h2 # h3 # h4 # t'"
      and "isHex h1" and "isHex h2" and "isHex h3" and "isHex h4"
      and "scanString InString (t' @ [dq]) = Inr (t', [])"
proof -
  from assms have e: "scanString InStringEsc (s @ [dq]) = Inr (s, [])"
    by (auto simp: keep_Inr bs_def dq_def split: if_splits)
  show thesis
  proof (cases s)
    case Nil
    with e show ?thesis by (simp add: keep_Inr split: if_splits)
  next
    case (Cons c s')
    show ?thesis
    proof (cases "c = CHR ''u''")
      case True
      with e Cons have "scanString (InStringEscU 4) (s' @ [dq]) = Inr (s', [])"
        by (auto simp: keep_Inr bs_def dq_def split: if_splits)
      from closed_hex [OF this refl] obtain h1 h2 h3 h4 t' where
        h: "s' = h1 # h2 # h3 # h4 # t'" "isHex h1" "isHex h2" "isHex h3" "isHex h4"
        "scanString InString (t' @ [dq]) = Inr (t', [])"
        by (elim exE conjE)
      from True Cons h(1) have "s = CHR ''u'' # h1 # h2 # h3 # h4 # t'" by simp
      from unicode [OF this h(2-6)] show ?thesis .
    next
      case False
      with e Cons have
        "c = CHR ''b'' \<or> c = CHR ''f'' \<or> c = CHR ''n'' \<or> c = CHR ''r'' \<or> c = CHR ''t''
          \<or> c = bs \<or> c = CHR ''/'' \<or> c = dq"
        and "scanString InString (s' @ [dq]) = Inr (s', [])"
        by (auto simp: keep_Inr split: if_splits)
      with Cons show ?thesis by (intro simple)
    qed
  qed
qed

lemma emit_Some: "r \<noteq> None \<Longrightarrow> \<exists>y. emit out r = Some y"
  by (auto simp: emit_def)

lemma getu4_hex:
  "isHex h1 \<Longrightarrow> isHex h2 \<Longrightarrow> isHex h3 \<Longrightarrow> isHex h4 \<Longrightarrow>
   getu4 (bs # CHR ''u'' # h1 # h2 # h3 # h4 # t) \<noteq> None"
  by (simp add: getu4_def)

lemma getu4_shape:
  "getu4 s \<noteq> None \<Longrightarrow> \<exists>h1 h2 h3 h4 t. s = bs # CHR ''u'' # h1 # h2 # h3 # h4 # t"
  by (auto simp: getu4_def split: list.splits if_splits)

lemma utf16_pair: "utf16DecodeRune r1 r2 \<noteq> RuneError \<Longrightarrow> r2 \<noteq> None"
  by (cases r2) (simp_all add: utf16DecodeRune_def)

lemma high_byte_plain: "CHR 0x80 \<le> c \<Longrightarrow> c \<noteq> bs \<and> c \<noteq> dq \<and> \<not> c < CHR 0x20"
  by (auto simp: bs_def dq_def less_eq_char_def less_char_def)

lemma DecodeRune_skips:
  assumes "DecodeRune (c # s) = (r, n)"
  shows "1 \<le> n \<and> n \<le> 4 \<and> n - 1 \<le> length s \<and> (\<forall>b \<in> set (take (n - 1) s). CHR 0x80 \<le> b)"
proof -
  have c: "isCont b \<Longrightarrow> CHR 0x80 \<le> b" for b by (simp add: isCont_def)
  have lo: "(if p then CHR 0xA0 else CHR 0x80) \<le> b \<Longrightarrow> CHR 0x80 \<le> b" for p b
    by (auto simp: less_eq_char_def split: if_splits)
  have lo': "(if p then CHR 0x90 else CHR 0x80) \<le> b \<Longrightarrow> CHR 0x80 \<le> b" for p b
    by (auto simp: less_eq_char_def split: if_splits)
  have a0: "CHR 0xA0 \<le> b \<Longrightarrow> CHR 0x80 \<le> b" for b
    by (simp add: less_eq_char_def)
  have a1: "CHR 0x90 \<le> b \<Longrightarrow> CHR 0x80 \<le> b" for b
    by (simp add: less_eq_char_def)
  from assms show ?thesis
    by (auto simp: DecodeRune_def take_Suc_conv_app_nth split: if_splits list.splits
        dest: c lo lo' a0 a1)
qed


lemma closed_drop:
  assumes "scanString InString (s @ [dq]) = Inr (s, [])"
    and "k \<le> length s" and "\<forall>b \<in> set (take k s). CHR 0x80 \<le> b"
  shows "scanString InString (drop k s @ [dq]) = Inr (drop k s, [])"
  using assms
proof (induction k arbitrary: s)
  case 0
  then show ?case by simp
next
  case (Suc k)
  then obtain c s' where s: "s = c # s'" by (cases s) auto
  with Suc.prems have c: "CHR 0x80 \<le> c" by simp
  from closed_plain [OF Suc.prems(1) [unfolded s]] high_byte_plain [OF c]
  have "scanString InString (s' @ [dq]) = Inr (s', [])" by simp
  from Suc.IH [OF this] Suc.prems(2,3) s show ?case by simp
qed

lemma closed_unquotes:
  "scanString InString (lit @ [dq]) = Inr (lit, []) \<Longrightarrow> unquoteBytes lit \<noteq> None"
proof (induction "length lit" arbitrary: lit rule: less_induct)
  case less
  note closed = less.prems
  show ?case
  proof (cases lit)
    case Nil
    then show ?thesis by simp
  next
    case (Cons c s)
    show ?thesis
    proof (cases "c = bs")
      case True
      from closed [unfolded Cons True] show ?thesis
      proof (cases rule: closed_escape)
        case (simple e s')
        have "unquoteBytes s' \<noteq> None"
          using less.hyps [OF _ simple(3)] Cons simple(1) by simp
        then have "\<exists>y. emit out (unquoteBytes s') = Some y" for out by (rule emit_Some)
        with simple(2) show ?thesis
          unfolding Cons True simple(1) by (subst unquoteBytes.simps) auto
      next
        case (unicode h1 h2 h3 h4 t')
        have lit: "lit = bs # CHR ''u'' # h1 # h2 # h3 # h4 # t'"
          using Cons True unicode(1) by simp
        from getu4_hex [OF unicode(2-5)] obtain rr where
          rr: "getu4 (bs # CHR ''u'' # h1 # h2 # h3 # h4 # t') = Some rr" by blast
        have t': "\<exists>y. emit out (unquoteBytes t') = Some y" for out
          using less.hyps [OF _ unicode(6)] lit by (intro emit_Some) simp
        have pair: "\<exists>y. emit out (unquoteBytes (drop 6 t')) = Some y"
          if "utf16DecodeRune rr (getu4 t') \<noteq> RuneError" for out
        proof -
          from utf16_pair [OF that] getu4_shape obtain g1 g2 g3 g4 t'' where
            t'': "t' = bs # CHR ''u'' # g1 # g2 # g3 # g4 # t''" by blast
          from unicode(6) [unfolded t'']
          have "scanString InString (t'' @ [dq]) = Inr (t'', [])"
          proof (cases rule: closed_escape)
            case (simple e s')
            then show ?thesis by (auto simp: bs_def dq_def)
          next
            case (unicode k1 k2 k3 k4 u')
            then show ?thesis by simp
          qed
          from less.hyps [OF _ this] lit t'' show ?thesis
            by (intro emit_Some) simp
        qed
        have ne: "CHR ''u'' \<noteq> dq" "CHR ''u'' \<noteq> bs"
          by (simp_all add: dq_def bs_def)
        show ?thesis
          unfolding lit
          by (subst unquoteBytes.simps) (simp add: rr t' pair ne Let_def)
      qed
    next
      case False
      from closed_plain [OF closed [unfolded Cons] False]
      have c: "c \<noteq> dq" "\<not> c < CHR 0x20"
        and cs: "scanString InString (s @ [dq]) = Inr (s, [])" by simp_all
      have plain: "\<exists>y. emit out (unquoteBytes s) = Some y" for out
        using less.hyps [OF _ cs] Cons by (intro emit_Some) simp
      have high: "\<exists>y. emit out (unquoteBytes (drop n (c # s))) = Some y"
        if "DecodeRune (c # s) = (rr, n)" for out rr n
      proof -
        from DecodeRune_skips [OF that]
        have n: "1 \<le> n" "n - 1 \<le> length s" "\<forall>b \<in> set (take (n - 1) s). CHR 0x80 \<le> b"
          by simp_all
        from n(1) have d: "drop n (c # s) = drop (n - 1) s" by (cases n) simp_all
        from closed_drop [OF cs n(2,3)] less.hyps [of "drop (n - 1) s"] Cons
        show ?thesis unfolding d by (intro emit_Some) simp
      qed
      show ?thesis
        unfolding Cons using False c
        by (subst unquoteBytes.simps) (auto simp: plain high split: prod.splits)
    qed
  qed
qed

lemma scanString_quoted:
  assumes "scanString InString s = Inr (lit, rest)"
  shows "\<exists>str. quoted lit = Inr str"
  using closed_unquotes [OF scanString_literal [OF assms]]
  by (auto simp: quoted_def)

subsection \<open>The fixtures, evaluated\<close>

lemma marshalMessage_zero:
  "marshalMessage zeroMessage =
     Inr (JObj [(''recipient'', JStr []), (''content'', JStr []), (''price'', JNum ''0'')])"
  by (simp add: marshalMessage_def zeroMessage_def struct_def field_def omitempty_def
      omitnil_def Itoa_def digits.simps)

lemma Marshal_testRequest:
  "Marshal (gatewayRequest testClient (Some [zeroMessage])) = Inr (Request.Body testRequest)"
  by (simp add: Marshal_def gatewayRequest_def testClient_def MakeSmsGatewayClient_def
      struct_def field_def omitempty_def fallible_def marshalMessages_def marshalMessage_zero
      Itoa_def digits.simps testRequest_def)

lemma marshalMessage_far:
  "marshalMessage farMessage =
     Inl (MarshalerError ''Time.MarshalJSON: year outside of range [0,9999]'')"
  by (simp add: marshalMessage_def farMessage_def zeroMessage_def struct_def field_def
      omitempty_def omitnil_def fallible_def marshalSettings_def marshalSendWindow_def
      marshalTime_def)

lemma Marshal_far:
  "Marshal (gatewayRequest testClient (Some [farMessage])) =
     Inl (MarshalerError ''Time.MarshalJSON: year outside of range [0,9999]'')"
  by (simp add: Marshal_def gatewayRequest_def testClient_def MakeSmsGatewayClient_def
      struct_def field_def omitempty_def fallible_def marshalMessages_def marshalMessage_far)

lemma createRequest_test:
  "parses net ''https://www.dummy-address.com/sendMessages'' \<Longrightarrow>
   createRequest net (baseURL testClient @ ''/sendMessages'') (Request.Body testRequest) =
     Some testRequest"
  by (simp add: createRequest_def NewRequest_def testClient_def MakeSmsGatewayClient_def
      testRequest_def)

lemma Itoa_500: "Itoa 500 = ''500''"
  by (simp add: Itoa_def digits.simps)

lemma Decode_okBody:
  "Decode okBody = Inr \<lparr>BatchReference = ''123abc'', MessageStatus = Some []\<rparr>"
  unfolding okBody_def by code_simp

lemma Decode_truncated: "Decode ''{'' = Inl ErrUnexpectedEOF"
  by code_simp

lemma Send_httpmock:
  "Send (httpmock status body) testClient (Some [zeroMessage]) =
     \<lparr>issued = [testRequest],
      result =
        (if status \<noteq> 200 then
           Returned zeroSmsGatewayResponse (Some (ErrorString (''Status code: '' @ Itoa status)))
         else
           (case Decode body of
              Inl err \<Rightarrow> Returned zeroSmsGatewayResponse (Some err)
            | Inr gatewayResponse \<Rightarrow> Returned gatewayResponse None))\<rparr>"
proof -
  have p: "parses (httpmock status body) ''https://www.dummy-address.com/sendMessages''"
    by (simp add: httpmock_def)
  have d: "Do (httpmock status body) testRequest = DoOk \<lparr>StatusCode = status, Body = body\<rparr>"
    by (simp add: httpmock_def testRequest_def)
  show ?thesis
    by (simp add: Send_issued [OF Marshal_testRequest createRequest_test [OF p]] d)
qed

lemma marshalMessages_zero:
  "marshalMessages (Some [zeroMessage]) =
     Inr (JArr [JObj [(''recipient'', JStr []), (''content'', JStr []), (''price'', JNum ''0'')]])"
  by (simp add: marshalMessages_def marshalMessage_zero)

lemma marshalSendWindow_startOnly:
  "marshalSendWindow startOnly = Inr (JObj [(''startDate'', JStr ''2016-05-17T00:00:00Z'')])"
  by (simp add: marshalSendWindow_def startOnly_def struct_def fallible_def omitnil_def
      marshalTime_def)

lemma marshalSettings_zero: "marshalSettings zeroSettings = Inr (JObj [])"
  by (simp add: marshalSettings_def zeroSettings_def struct_def omitempty_def omitnil_def)

lemma marshalGasSettings_some:
  "marshalGasSettings \<lparr>ServiceCode = ''09001'', Description = []\<rparr> =
     Inr (JObj [(''serviceCode'', JStr ''09001'')])"
  by (simp add: marshalGasSettings_def struct_def field_def omitempty_def)

lemma marshalSettings_some:
  "marshalSettings someSettings =
     Inr (JObj [(''priority'', JNum ''2''), (''newSession'', JBool True),
                (''gasSettings'', JObj [(''serviceCode'', JStr ''09001'')]),
                (''sendWindow'', JObj [(''startDate'', JStr ''2016-05-17T00:00:00Z'')])])"
  by (simp add: marshalSettings_def someSettings_def zeroSettings_def struct_def omitempty_def
      omitnil_def fallible_def marshalGasSettings_some marshalSendWindow_startOnly Itoa_def
      digits.simps)

lemma Marshal_someRequest:
  "Marshal (gatewayRequest testClient (Some [someMessage])) = Inr (Request.Body someRequest)"
  by (simp add: Marshal_def gatewayRequest_def testClient_def MakeSmsGatewayClient_def
      struct_def field_def omitempty_def omitnil_def fallible_def marshalMessages_def
      marshalMessage_def someMessage_def zeroMessage_def marshalSettings_some
      Itoa_def digits.simps someRequest_def)

lemma issued_someRequest:
  "issued (Send (httpmock status body) testClient (Some [someMessage])) = [someRequest]"
proof -
  have "createRequest (httpmock status body) (baseURL testClient @ ''/sendMessages'')
          (Request.Body someRequest) = Some someRequest"
    by (simp add: createRequest_def NewRequest_def httpmock_def testClient_def
        MakeSmsGatewayClient_def someRequest_def testRequest_def)
  from Send_issued [OF Marshal_someRequest this] show ?thesis by simp
qed




subsection \<open>The claims\<close>

text \<open>
  C1. The claim asks for the transport error to be returned. When the HTTP client
  reports a failure with no response, \<open>Send\<close> has issued its one request and then
  panics at \<open>defer response.Body.Close()\<close>, before it looks at the error.
\<close>

theorem transport_failure_panics:
  assumes "Marshal (gatewayRequest client messages) = Inr buffer"
    and "createRequest net (baseURL client @ ''/sendMessages'') buffer = Some request"
    and "Do net request = DoErr err"
  shows "Send net client messages = \<lparr>issued = [request], result = Panic\<rparr>"
  using assms by (simp add: Send_issued)

theorem transport_failure_panics_witness:
  "Send unreachable testClient (Some [zeroMessage]) = \<lparr>issued = [testRequest], result = Panic\<rparr>"
proof -
  have p: "parses unreachable ''https://www.dummy-address.com/sendMessages''"
    by (simp add: unreachable_def)
  have d: "Do unreachable testRequest = DoErr ''dial tcp: connection refused''"
    by (simp add: unreachable_def)
  from transport_failure_panics [OF Marshal_testRequest createRequest_test [OF p] d]
  show ?thesis .
qed

text \<open>
  C2. In the body of every request that \<open>Send\<close> hands to the HTTP client, each
  optional field that is left unset has no key: \<open>batchReference\<close> in the envelope
  (\<open>Send\<close> never sets it); in the object written for each of the caller's messages
  \<open>clientReference\<close> and \<open>settings\<close>; in the settings object of a message
  each of the thirteen fields of \<open>Settings\<close>; in the goods-and-services settings
  of those \<open>description\<close>; in their send window \<open>startTime\<close>,
  \<open>stopDate\<close> and \<open>stopTime\<close>. A key that is not there is not there with a
  \<open>null\<close> or an empty value either.
\<close>

theorem unset_fields_absent_from_posted_body:
  assumes "request \<in> set (issued (Send net client messages))"
  shows "''batchReference'' \<notin> set (keys (Request.Body request))
       \<and> eachMessage omitsUnsetMessage messages (Request.Body request)"
  using Marshal_eachMessage [OF issued_body [OF assms], of omitsUnsetMessage]
    marshalMessage_omitsUnset
  by simp

theorem unset_fields_absent_from_posted_body_witness:
  "issued (Send (httpmock 200 okBody) testClient (Some [someMessage])) = [someRequest]
   \<and> ''batchReference'' \<notin> set (keys (Request.Body someRequest))
   \<and> eachMessage omitsUnsetMessage (Some [someMessage]) (Request.Body someRequest)"
proof -
  have i: "someRequest \<in> set (issued (Send (httpmock 200 okBody) testClient (Some [someMessage])))"
    by (simp add: issued_someRequest)
  from unset_fields_absent_from_posted_body [OF i] show ?thesis
    by (simp add: issued_someRequest)
qed

text \<open>
  C3, as stated, fails: when the HTTP client gives up on redirects it hands back the last
  response, whose status code is 302, together with its error, and \<open>Send\<close>
  returns that error, not an error that carries the status code.
\<close>

theorem redirect_error_hides_status:
  "Do redirecting testRequest =
     DoRespErr \<lparr>StatusCode = 302, Body = []\<rparr> ''stopped after 10 redirects''
   \<and> Send redirecting testClient (Some [zeroMessage]) =
       \<lparr>issued = [testRequest],
        result = Returned zeroSmsGatewayResponse
          (Some (URLError ''stopped after 10 redirects''))\<rparr>"
proof -
  have p: "parses redirecting ''https://www.dummy-address.com/sendMessages''"
    by (simp add: redirecting_def)
  have d: "Do redirecting testRequest =
     DoRespErr \<lparr>StatusCode = 302, Body = []\<rparr> ''stopped after 10 redirects''"
    by (simp add: redirecting_def)
  show ?thesis
    by (simp add: Send_issued [OF Marshal_testRequest createRequest_test [OF p]] d)
qed

text \<open>
  C3, amended. When the HTTP client hands back a response without an error and the
  status code of the response is not 200, \<open>Send\<close> returns the zero response with
  the error whose text is \<open>Status code: \<close> followed by the code in decimal,
  whatever the body holds; the text determines the code: the error of one code is never
  the error of another. When the HTTP client hands back a response together with an
  error, \<open>Send\<close> returns the zero response with that error, whatever the status
  code is.
\<close>

theorem status_error_unless_client_error:
  assumes "Marshal (gatewayRequest client messages) = Inr buffer"
    and "createRequest net (baseURL client @ ''/sendMessages'') buffer = Some request"
  shows "(\<forall>response. Do net request = DoOk response \<and> Response.StatusCode response \<noteq> 200 \<longrightarrow>
            Send net client messages =
              \<lparr>issued = [request],
               result = Returned zeroSmsGatewayResponse
                 (Some (ErrorString (''Status code: '' @ Itoa (Response.StatusCode response))))\<rparr>
          \<and> (\<forall>code. ''Status code: '' @ Itoa code
                        = ''Status code: '' @ Itoa (Response.StatusCode response)
                      \<longrightarrow> code = Response.StatusCode response))
       \<and> (\<forall>response err. Do net request = DoRespErr response err \<longrightarrow>
            Send net client messages =
              \<lparr>issued = [request],
               result = Returned zeroSmsGatewayResponse (Some (URLError err))\<rparr>)"
  by (auto simp: Send_issued [OF assms] dest: Itoa_inj)

theorem status_error_unless_client_error_witness:
  "Send (httpmock 500 []) testClient (Some [zeroMessage]) =
     \<lparr>issued = [testRequest],
      result = Returned zeroSmsGatewayResponse (Some (ErrorString ''Status code: 500''))\<rparr>
   \<and> Send redirecting testClient (Some [zeroMessage]) =
     \<lparr>issued = [testRequest],
      result = Returned zeroSmsGatewayResponse (Some (URLError ''stopped after 10 redirects''))\<rparr>"
proof -
  have p: "parses (httpmock 500 []) ''https://www.dummy-address.com/sendMessages''"
    by (simp add: httpmock_def)
  have d: "Do (httpmock 500 []) testRequest = DoOk \<lparr>StatusCode = 500, Body = []\<rparr>"
    by (simp add: httpmock_def testRequest_def)
  have p': "parses redirecting ''https://www.dummy-address.com/sendMessages''"
    by (simp add: redirecting_def)
  have d': "Do redirecting testRequest =
     DoRespErr \<lparr>StatusCode = 302, Body = []\<rparr> ''stopped after 10 redirects''"
    by (simp add: redirecting_def)
  from status_error_unless_client_error [OF Marshal_testRequest createRequest_test [OF p]] d
  have 1: "Send (httpmock 500 []) testClient (Some [zeroMessage]) =
     \<lparr>issued = [testRequest],
      result = Returned zeroSmsGatewayResponse (Some (ErrorString ''Status code: 500''))\<rparr>"
    by (simp add: Itoa_500)
  from status_error_unless_client_error [OF Marshal_testRequest createRequest_test [OF p']] d'
  have 2: "Send redirecting testClient (Some [zeroMessage]) =
     \<lparr>issued = [testRequest],
      result = Returned zeroSmsGatewayResponse (Some (URLError ''stopped after 10 redirects''))\<rparr>"
    by simp
  from 1 2 show ?thesis by simp
qed




text \<open>
  C5. When the responder answers the POST to \<open>baseURL + "/sendMessages"\<close> with status
  200 and the body \<open>{"batchReference":"123abc","messageStatus":[]}\<close>, \<open>Send\<close> with
  one zero message returns no error and the response with batch reference \<open>123abc\<close>
  and an empty, non-nil list of statuses.
\<close>

theorem ok_response_parsed:
  assumes "parses net (baseURL client @ ''/sendMessages'')"
    and "\<And>request. Method request = ''POST'' \<Longrightarrow> URL request = baseURL client @ ''/sendMessages''
           \<Longrightarrow> Do net request = DoOk \<lparr>StatusCode = 200, Body = okBody\<rparr>"
  shows "result (Send net client (Some [zeroMessage])) =
           Returned \<lparr>BatchReference = ''123abc'', MessageStatus = Some []\<rparr> None"
proof -
  obtain buffer where m: "Marshal (gatewayRequest client (Some [zeroMessage])) = Inr buffer"
    by (simp add: Marshal_def gatewayRequest_def struct_def field_def omitempty_def
        fallible_def marshalMessages_zero)
  obtain request where
    c: "createRequest net (baseURL client @ ''/sendMessages'') buffer = Some request"
    and r: "Method request = ''POST''" "URL request = baseURL client @ ''/sendMessages''"
    using assms(1) by (simp add: createRequest_def NewRequest_def)
  from assms(2) [OF r] show ?thesis
    by (simp add: Send_issued [OF m c] Decode_okBody)
qed

theorem ok_response_parsed_witness:
  "result (Send (httpmock 200 okBody) testClient (Some [zeroMessage])) =
     Returned \<lparr>BatchReference = ''123abc'', MessageStatus = Some []\<rparr> None"
proof (rule ok_response_parsed)
  show "parses (httpmock 200 okBody) (baseURL testClient @ ''/sendMessages'')"
    by (simp add: httpmock_def testClient_def MakeSmsGatewayClient_def)
next
  fix request :: Request
  assume "Method request = ''POST''" "URL request = baseURL testClient @ ''/sendMessages''"
  then show "Do (httpmock 200 okBody) request = DoOk \<lparr>StatusCode = 200, Body = okBody\<rparr>"
    by (simp add: httpmock_def testClient_def MakeSmsGatewayClient_def)
qed

text \<open>
  C6, as stated, fails: a call whose envelope does not marshal issues no request.
\<close>

theorem not_every_call_posts:
  "issued (Send unreachable testClient (Some [farMessage])) = []"
  by (simp add: Send_def Marshal_far)

text \<open>
  C6, amended. When the envelope marshals and the URL parses, \<open>Send\<close> hands exactly
  one request to the HTTP client: a POST to \<open>baseURL + "/sendMessages"\<close> with the headers
  \<open>Content-Type: application/json\<close> and \<open>Accept: application/json\<close>, whose body
  is the object with the members \<open>serviceId\<close>, \<open>username\<close>, \<open>password\<close> and
  \<open>message\<close> in this order; \<open>message\<close> holds the caller's messages, marshalled in
  order, or \<open>null\<close> for a nil slice. The envelope type has the wire name
  \<open>batchReference\<close> as well, between \<open>password\<close> and \<open>message\<close>, written
  when the field is not empty; \<open>Send\<close> leaves it empty.
\<close>

theorem one_post_when_marshalled:
  assumes "Marshal (gatewayRequest client messages) = Inr buffer"
    and "parses net (baseURL client @ ''/sendMessages'')"
  shows "\<exists>request message.
      issued (Send net client messages) = [request]
    \<and> Method request = ''POST''
    \<and> URL request = baseURL client @ ''/sendMessages''
    \<and> Header request = [(''Content-Type'', [''application/json'']),
                         (''Accept'', [''application/json''])]
    \<and> Request.Body request =
        JObj [(''serviceId'', JNum (Itoa (serviceID client))),
              (''username'', JStr (username client)),
              (''password'', JStr (password client)),
              (''message'', message)]
    \<and> (case messages of
          None \<Rightarrow> message = JNull
        | Some xs \<Rightarrow> \<exists>vs. message = JArr vs \<and> map marshalMessage xs = map Inr vs)
    \<and> (\<forall>r j. Marshal r = Inr j \<longrightarrow>
          keys j = [''serviceId'', ''username'', ''password'']
                   @ (if smsGatewayRequest.BatchReference r = [] then [] else [''batchReference''])
                   @ [''message''])"
proof -
  from Marshal_members [OF assms(1)] obtain message
    where mm: "marshalMessages messages = Inr message"
      and b: "buffer = JObj [(''serviceId'', JNum (Itoa (serviceID client))),
                             (''username'', JStr (username client)),
                             (''password'', JStr (password client)),
                             (''message'', message)]"
    by (auto simp: gatewayRequest_def)
  let ?request =
    "\<lparr>Method = ''POST'', URL = baseURL client @ ''/sendMessages'',
      Header = [(''Content-Type'', [''application/json'']), (''Accept'', [''application/json''])],
      Body = buffer\<rparr>"
  have c: "createRequest net (baseURL client @ ''/sendMessages'') buffer = Some ?request"
    using assms(2) by (simp add: createRequest_def NewRequest_def)
  have i: "issued (Send net client messages) = [?request]"
    by (simp add: Send_issued [OF assms(1) c])
  have k: "\<forall>r j. Marshal r = Inr j \<longrightarrow>
          keys j = [''serviceId'', ''username'', ''password'']
                   @ (if smsGatewayRequest.BatchReference r = [] then [] else [''batchReference''])
                   @ [''message'']"
    using Marshal_keys by blast
  from i b marshalMessages_shape [OF mm] k show ?thesis
    by (intro exI [of _ ?request] exI [of _ message]) simp
qed

theorem one_post_when_marshalled_witness:
  "\<exists>request. issued (Send (httpmock 200 okBody) testClient (Some [zeroMessage])) = [request]
     \<and> Method request = ''POST''
     \<and> URL request = ''https://www.dummy-address.com/sendMessages''
     \<and> Header request = [(''Content-Type'', [''application/json'']),
                          (''Accept'', [''application/json''])]"
proof -
  have p: "parses (httpmock 200 okBody) (baseURL testClient @ ''/sendMessages'')"
    by (simp add: httpmock_def testClient_def MakeSmsGatewayClient_def)
  from one_post_when_marshalled [OF Marshal_testRequest p]
  show ?thesis by (auto simp: testClient_def MakeSmsGatewayClient_def)
qed

text \<open>
  C7. When marshalling the envelope fails, \<open>Send\<close> returns the marshaller's error
  with the zero response and has handed no request to the HTTP client.
\<close>

theorem serialization_failure_before_network:
  assumes "Marshal (gatewayRequest client messages) = Inl err"
  shows "Send net client messages =
           \<lparr>issued = [], result = Returned zeroSmsGatewayResponse (Some err)\<rparr>"
  using assms by (simp add: Send_def)

theorem serialization_failure_before_network_witness:
  "Send unreachable testClient (Some [farMessage]) =
     \<lparr>issued = [],
      result = Returned zeroSmsGatewayResponse
        (Some (MarshalerError ''Time.MarshalJSON: year outside of range [0,9999]''))\<rparr>"
  by (rule serialization_failure_before_network [OF Marshal_far])

text \<open>
  C8. A send window whose start time, stop date and stop time are nil marshals to an
  object with the one key \<open>startDate\<close>.
\<close>

theorem send_window_start_date_only:
  assumes "marshalSendWindow w = Inr j"
    and "StartTime w = None" and "StopDate w = None" and "StopTime w = None"
  shows "keys j = [''startDate'']"
  using assms
  by (auto simp: marshalSendWindow_def struct_def fallible_def omitnil_def split: sum.splits)

theorem send_window_start_date_only_witness:
  "keys (JObj [(''startDate'', JStr ''2016-05-17T00:00:00Z'')]) = [''startDate'']"
  by (rule send_window_start_date_only [OF marshalSendWindow_startOnly])
    (simp_all add: startOnly_def)

text \<open>
  C9. In the body of every request that \<open>Send\<close> hands to the HTTP client, the
  settings object of each message has the key \<open>age\<close> exactly when \<open>Age\<close>
  is not 0, and each of \<open>newSession\<close>, \<open>autoDetectEncoding\<close> and
  \<open>safeRemoveNonGsmCharacters\<close> exactly when its flag is true; the member
  \<open>"age":0\<close> occurs in no settings object that is sent. \<open>Age\<close> has no state
  beside its number, so an age of 0 is the unset age: the two are one value and give one
  request.
\<close>

theorem zero_age_and_false_flags_never_posted:
  assumes "request \<in> set (issued (Send net client messages))"
  shows "eachMessage (\<lambda>m. optionalObject ''settings'' (Settings m) omitsZeroAgeFalseFlags)
           messages (Request.Body request)"
proof -
  have "optionalObject ''settings'' (Settings m) omitsZeroAgeFalseFlags j"
    if "marshalMessage m = Inr j" for m j
    using marshalMessage_settings [OF that, of omitsZeroAgeFalseFlags] marshalSettings_zeroAge
    by simp
  from Marshal_eachMessage [OF issued_body [OF assms],
      of "\<lambda>m. optionalObject ''settings'' (Settings m) omitsZeroAgeFalseFlags"] this
  show ?thesis by simp
qed

theorem zero_age_and_false_flags_never_posted_witness:
  "issued (Send (httpmock 200 okBody) testClient (Some [someMessage])) = [someRequest]
   \<and> Age someSettings = 0 \<and> \<not> AutoDetectEncoding someSettings
   \<and> eachMessage (\<lambda>m. optionalObject ''settings'' (Settings m) omitsZeroAgeFalseFlags)
        (Some [someMessage]) (Request.Body someRequest)"
proof -
  have i: "someRequest \<in> set (issued (Send (httpmock 200 okBody) testClient (Some [someMessage])))"
    by (simp add: issued_someRequest)
  from zero_age_and_false_flags_never_posted [OF i] show ?thesis
    by (simp add: issued_someRequest someSettings_def zeroSettings_def)
qed

text \<open>
  C10. Whenever \<open>Send\<close> returns an error, the response it returns with it is the
  zero \<open>SmsGatewayResponse\<close>.
\<close>

theorem error_with_zero_response:
  assumes "result (Send net client messages) = Returned response (Some err)"
  shows "response = zeroSmsGatewayResponse"
  using assms
  by (auto simp: Send_def split: sum.splits option.splits DoResult.splits if_splits)

theorem error_with_zero_response_witness:
  "result (Send (httpmock 200 ''{'') testClient (Some [zeroMessage])) =
     Returned zeroSmsGatewayResponse (Some ErrUnexpectedEOF)"
proof -
  obtain response where
    r: "result (Send (httpmock 200 ''{'') testClient (Some [zeroMessage])) =
          Returned response (Some ErrUnexpectedEOF)"
    by (simp add: Send_httpmock Decode_truncated)
  from error_with_zero_response [OF r] r show ?thesis by simp
qed

end
